theory Spec2Isabelle
  imports Complex_Main
begin

section \<open>Numbers\<close>

text \<open>
  The engine computes in \<open>double\<close> and stores the fading factor and the volumes as
  \<open>float\<close>. Finite \<open>double\<close> values are modelled as \<open>real\<close>: the rounding of \<open>double\<close>
  arithmetic is not modelled. The narrowing of a \<open>double\<close> to \<open>float\<close> is modelled, by
  \<open>float32\<close> below. A quotient can have a zero divisor; IEEE division then yields an
  infinity or a NaN, not the 0 of HOL's division, so a quotient is a value of \<open>xreal\<close>
  and the comparisons on it are the IEEE ones (false on a NaN).
\<close>

datatype xreal = Fin real | PInf | MInf | NaN

fun xless :: "xreal \<Rightarrow> xreal \<Rightarrow> bool" where
  "xless NaN b = False"
| "xless a NaN = False"
| "xless (Fin a) (Fin b) = (a < b)"
| "xless (Fin a) PInf = True"
| "xless (Fin a) MInf = False"
| "xless PInf b = False"
| "xless MInf MInf = False"
| "xless MInf b = True"

fun xge :: "xreal \<Rightarrow> xreal \<Rightarrow> bool" where
  "xge NaN b = False"
| "xge a NaN = False"
| "xge a b = (\<not> xless a b)"

definition fdiv :: "real \<Rightarrow> real \<Rightarrow> xreal" where
  "fdiv a b =
     (if b = 0 then (if 0 < a then PInf else if a < 0 then MInf else NaN)
      else Fin (a / b))"

fun one_minus :: "xreal \<Rightarrow> xreal" where
  "one_minus (Fin p) = Fin (1 - p)"
| "one_minus PInf = MInf"
| "one_minus MInf = PInf"
| "one_minus NaN = NaN"

text \<open>
  \<open>juce::jlimit (lowerLimit, upperLimit, valueToConstrain)\<close> is
  \<open>v < lo ? lo : (hi < v ? hi : v)\<close>, here at \<open>double\<close> for a finite value and for a quotient.
\<close>

definition jlimit :: "real \<Rightarrow> real \<Rightarrow> real \<Rightarrow> real" where
  "jlimit lowerLimit upperLimit v =
     (if v < lowerLimit then lowerLimit else if upperLimit < v then upperLimit else v)"

definition jlimit_x :: "real \<Rightarrow> real \<Rightarrow> xreal \<Rightarrow> xreal" where
  "jlimit_x lowerLimit upperLimit v =
     (if xless v (Fin lowerLimit) then Fin lowerLimit
      else if xless (Fin upperLimit) v then Fin upperLimit else v)"

text \<open>
  \<open>pow (base, exponent)\<close> of the C library. For a finite exponent it is given on the
  bases the engine passes: the result of \<open>jlimit\<close> between 0 and 1, or a NaN that
  \<open>jlimit\<close> let through. The exponent is the fading factor, a \<open>float\<close> that can be
  infinite or a NaN when the fading curve is outside its range.
\<close>

fun pow :: "xreal \<Rightarrow> xreal \<Rightarrow> xreal" where
  "pow (Fin b) (Fin e) =
     (if e = 0 then Fin 1
      else if 0 < b then Fin (b powr e)
      else if b = 0 then (if 0 < e then Fin 0 else PInf)
      else NaN)"
| "pow PInf (Fin e) = (if e = 0 then Fin 1 else if 0 < e then PInf else Fin 0)"
| "pow MInf (Fin e) = (if e = 0 then Fin 1 else NaN)"
| "pow NaN (Fin e) = (if e = 0 then Fin 1 else NaN)"
| "pow (Fin b) PInf = (if \<bar>b\<bar> < 1 then Fin 0 else if \<bar>b\<bar> = 1 then Fin 1 else PInf)"
| "pow (Fin b) MInf = (if \<bar>b\<bar> < 1 then PInf else if \<bar>b\<bar> = 1 then Fin 1 else Fin 0)"
| "pow (Fin b) NaN = (if b = 1 then Fin 1 else NaN)"
| "pow NaN e = NaN"
| "pow b NaN = NaN"
| "pow b PInf = PInf"
| "pow b MInf = Fin 0"

subsection \<open>Narrowing to single precision\<close>

text \<open>
  The conversion of a \<open>double\<close> to \<open>float\<close> rounds to the nearest value with a 24 bit
  significand, ties to the even significand; below \<open>2 powi (-126)\<close> the spacing stays
  \<open>2 powi (-149)\<close>, and a result of \<open>2 powi 128\<close> or more is an infinity.
\<close>

definition round_half_even :: "real \<Rightarrow> int" where
  "round_half_even y =
     (let f = \<lfloor>y\<rfloor>; d = y - of_int f
      in if d < 1 / 2 then f else if 1 / 2 < d then f + 1 else if even f then f else f + 1)"

text \<open>
  The binary exponent of a positive number, found by halving (from 1 upwards, at most
  128 times) or by doubling (below 1, at most 126 times).
\<close>

fun exp_up :: "nat \<Rightarrow> real \<Rightarrow> int" where
  "exp_up 0 x = 0"
| "exp_up (Suc n) x = (if x < 2 then 0 else 1 + exp_up n (x / 2))"

fun exp_down :: "nat \<Rightarrow> real \<Rightarrow> int" where
  "exp_down 0 x = 0"
| "exp_down (Suc n) x = (if 1 \<le> x then 0 else exp_down n (2 * x) - 1)"

definition float_exponent :: "real \<Rightarrow> int" where
  "float_exponent x = (if 1 \<le> x then exp_up 128 x else exp_down 126 x)"

definition float32_pos :: "real \<Rightarrow> xreal" where
  "float32_pos x =
     (let ulp = 2 powi (float_exponent x - 23);
          r = of_int (round_half_even (x / ulp)) * ulp
      in if 2 powi 128 \<le> r then PInf else Fin r)"

fun xneg :: "xreal \<Rightarrow> xreal" where
  "xneg (Fin r) = Fin (- r)"
| "xneg PInf = MInf"
| "xneg MInf = PInf"
| "xneg NaN = NaN"

definition float32 :: "real \<Rightarrow> xreal" where
  "float32 x =
     (if x = 0 then Fin 0 else if 0 < x then float32_pos x else xneg (float32_pos (- x)))"

fun narrow :: "xreal \<Rightarrow> xreal" where
  "narrow (Fin r) = float32 r"
| "narrow v = v"

section \<open>Tracks, decks and the engine state\<close>

text \<open>
  Modelled from the spec: the track handle (\<open>ITrack\<close>, declared in a header that is not
  part of the sources). It is opaque to the engine; \<open>loadable\<close> says whether a deck accepts
  it (the spec's load errors are an unsupported format and an I/O failure).
\<close>

datatype track = Track (trackId: nat) (loadable: bool)

datatype deck_id = DeckA | DeckB

text \<open>
  Modelled from the spec: the transition states and their order (the enum is declared in
  Medley.h, which is not part of the sources; the handlers compare states with \<open><\<close>).
\<close>

datatype TransitionState = Idle | Cueing | Cued | Transit

fun ts_rank :: "TransitionState \<Rightarrow> nat" where
  "ts_rank Idle = 0"
| "ts_rank Cueing = 1"
| "ts_rank Cued = 2"
| "ts_rank Transit = 3"

text \<open>
  Modelled from the spec: the state of a deck that the engine reads (Deck.cpp and Deck.h
  are not part of the sources). The fields are named after the accessors the engine calls.
\<close>

record deck =
  isTrackLoaded :: bool
  isTrackLoading :: bool
  isPlaying :: bool
  isMain :: bool
  volume :: xreal
  getFirstAudiblePosition :: real
  getLeadingDuration :: real
  getTransitionPreCuePosition :: real
  getTransitionCuePosition :: real
  getTransitionStartPosition :: real
  getTransitionEndPosition :: real

text \<open>
  What the engine does to the outside is recorded in order: the calls it makes on a deck
  and the callbacks it delivers to its listeners.
\<close>

datatype deck_call =
    LoadTrack track bool
  | UnloadTrack
  | Start
  | Stop
  | SetVolume xreal
  | SetPosition real
  | SetPositionFractional real
  | SetMaxTransitionTime real
  | MarkAsMain bool
  | FadeOut
  | FireFinishedCallback

datatype action =
    Call deck_id deck_call
  | CbDeckStarted deck_id
  | CbDeckFinished deck_id
  | CbDeckLoaded deck_id
  | CbDeckUnloaded deck_id
  | CbDeckPosition deck_id real
  | CbPreCueNext

text \<open>
  The members of \<open>Medley\<close> and of its mixer that Medley.cpp reads and writes, under their
  names there (the classes are declared in Medley.h, which is not part of the sources);
  \<open>queue\<close> is the content of the track queue, and \<open>forceFadingOut\<close> stays far from the
  bounds of its machine type.
\<close>

record mixer =
  paused :: bool

record medley =
  deck1 :: deck
  deck2 :: deck
  deckQueue :: "deck_id list"
  transitionState :: TransitionState
  transitingDeck :: "deck_id option"
  forceFadingOut :: int
  keepPlaying :: bool
  fadingCurve :: real
  fadingFactor :: xreal
  maxLeadingDuration :: real
  maxTransitionTime :: real
  queue :: "track list"
  mix :: mixer
  trace :: "action list"

datatype error = NullPointerDereference

definition deckOf :: "medley \<Rightarrow> deck_id \<Rightarrow> deck" where
  "deckOf s d = (case d of DeckA \<Rightarrow> deck1 s | DeckB \<Rightarrow> deck2 s)"

definition updDeck :: "deck_id \<Rightarrow> (deck \<Rightarrow> deck) \<Rightarrow> medley \<Rightarrow> medley" where
  "updDeck d f s = (case d of DeckA \<Rightarrow> s\<lparr>deck1 := f (deck1 s)\<rparr> | DeckB \<Rightarrow> s\<lparr>deck2 := f (deck2 s)\<rparr>)"

definition emit :: "action \<Rightarrow> medley \<Rightarrow> medley" where
  "emit a s = s\<lparr>trace := trace s @ [a]\<rparr>"

fun other :: "deck_id \<Rightarrow> deck_id" where
  "other DeckA = DeckB"
| "other DeckB = DeckA"

subsection \<open>Deck operations\<close>

text \<open>
  Modelled from the spec: the operations of a deck (Deck.cpp is not part of the sources).
  \<open>load\<close> returns whether the load was accepted and fails fast if the deck is already
  loading; the load itself runs on the loading thread. \<open>unload\<close> releases the track and
  clears the anchors. \<open>start\<close> and \<open>stop\<close> are state transitions, and an operation on an
  empty deck is a no-op. The events a deck emits (loaded, unloaded, position) reach the
  engine as separate invocations of its handlers.
\<close>

definition deck_loadTrack :: "track \<Rightarrow> bool \<Rightarrow> deck \<Rightarrow> bool \<times> deck" where
  "deck_loadTrack t play d =
     (if isTrackLoading d then (False, d)
      else if \<not> loadable t then (False, d)
      else (True, d\<lparr>isTrackLoading := True\<rparr>))"

definition deck_unloadTrack :: "deck \<Rightarrow> deck" where
  "deck_unloadTrack d =
     d\<lparr>isTrackLoaded := False, isTrackLoading := False, isPlaying := False,
       getFirstAudiblePosition := 0, getLeadingDuration := 0,
       getTransitionPreCuePosition := 0, getTransitionCuePosition := 0,
       getTransitionStartPosition := 0, getTransitionEndPosition := 0\<rparr>"

definition deck_start :: "deck \<Rightarrow> deck" where
  "deck_start d = (if isTrackLoaded d then d\<lparr>isPlaying := True\<rparr> else d)"

definition deck_stop :: "deck \<Rightarrow> deck" where
  "deck_stop d = d\<lparr>isPlaying := False\<rparr>"

text \<open>A call on a deck: the deck changes and the call is recorded.\<close>

definition loadTrack :: "deck_id \<Rightarrow> track \<Rightarrow> bool \<Rightarrow> medley \<Rightarrow> bool \<times> medley" where
  "loadTrack d t play s =
     (let (ok, dk) = deck_loadTrack t play (deckOf s d)
      in (ok, emit (Call d (LoadTrack t play)) (updDeck d (\<lambda>_. dk) s)))"

definition unloadTrack :: "deck_id \<Rightarrow> medley \<Rightarrow> medley" where
  "unloadTrack d s = emit (Call d UnloadTrack) (updDeck d deck_unloadTrack s)"

definition start :: "deck_id \<Rightarrow> medley \<Rightarrow> medley" where
  "start d s = emit (Call d Start) (updDeck d deck_start s)"

definition stop_deck :: "deck_id \<Rightarrow> medley \<Rightarrow> medley" where
  "stop_deck d s = emit (Call d Stop) (updDeck d deck_stop s)"

definition setVolume :: "deck_id \<Rightarrow> xreal \<Rightarrow> medley \<Rightarrow> medley" where
  "setVolume d v s = emit (Call d (SetVolume v)) (updDeck d (\<lambda>dk. dk\<lparr>volume := v\<rparr>) s)"

definition setPosition :: "deck_id \<Rightarrow> real \<Rightarrow> medley \<Rightarrow> medley" where
  "setPosition d p s = emit (Call d (SetPosition p)) s"

definition markAsMain :: "deck_id \<Rightarrow> bool \<Rightarrow> medley \<Rightarrow> medley" where
  "markAsMain d b s = emit (Call d (MarkAsMain b)) (updDeck d (\<lambda>dk. dk\<lparr>isMain := b\<rparr>) s)"

section \<open>The engine\<close>

subsection \<open>Settings and the mixer\<close>

definition updateFadingFactor :: "medley \<Rightarrow> medley" where
  "updateFadingFactor s =
     (let outRange = 1000 - 1; inRange = 100
      in s\<lparr>fadingFactor :=
             narrow (fdiv 1000 (((100 - fadingCurve s) / inRange * outRange) + 1))\<rparr>)"

definition setFadingCurve :: "real \<Rightarrow> medley \<Rightarrow> medley" where
  "setFadingCurve curve s = updateFadingFactor (s\<lparr>fadingCurve := jlimit 0 100 curve\<rparr>)"

text \<open>
  Modelled from the spec: \<open>getFadingCurve\<close> (defined in Medley.h, which is not part of the
  sources) reads the stored curve back.
\<close>

definition getFadingCurve :: "medley \<Rightarrow> real" where
  "getFadingCurve s = fadingCurve s"

definition togglePause :: "mixer \<Rightarrow> bool \<times> mixer" where
  "togglePause m = (\<not> paused m, m\<lparr>paused := \<not> paused m\<rparr>)"

text \<open>
  Modelled from the spec: \<open>Mixer::setPause\<close> (defined in Medley.h, which is not part of the
  sources) stores the paused flag.
\<close>

definition setPause :: "bool \<Rightarrow> medley \<Rightarrow> medley" where
  "setPause p s = s\<lparr>mix := (mix s)\<lparr>paused := p\<rparr>\<rparr>"

subsection \<open>Choosing a deck and loading the next track\<close>

definition getAvailableDeck :: "medley \<Rightarrow> deck_id option" where
  "getAvailableDeck s =
     (if \<not> isTrackLoaded (deck1 s) then Some DeckA
      else if \<not> isTrackLoaded (deck2 s) then Some DeckB else None)"

definition getAnotherDeck :: "medley \<Rightarrow> deck_id option \<Rightarrow> deck_id option" where
  "getAnotherDeck s from =
     (case from of
        None \<Rightarrow> getAvailableDeck s
      | Some d \<Rightarrow> Some (if d = DeckA then DeckB else DeckA))"

definition getMainDeck :: "medley \<Rightarrow> deck_id option" where
  "getMainDeck s = (if deckQueue s = [] then None else Some (hd (deckQueue s)))"

definition isDeckPlaying :: "medley \<Rightarrow> bool" where
  "isDeckPlaying s = (isPlaying (deck1 s) \<or> isPlaying (deck2 s))"

text \<open>
  The loop of \<open>Medley::loadNextTrack\<close>: while the queue holds a track, fetch it (it leaves
  the queue) and offer it to the deck. The list argument is the content of the queue.
\<close>

fun loadLoop :: "deck_id \<Rightarrow> bool \<Rightarrow> track list \<Rightarrow> medley \<Rightarrow> bool \<times> medley" where
  "loadLoop deck play [] s = (False, s\<lparr>queue := []\<rparr>)"
| "loadLoop deck play (t # ts) s =
     (case loadTrack deck t play (s\<lparr>queue := ts\<rparr>) of
        (True, s') \<Rightarrow> (True, s')
      | (False, s') \<Rightarrow> loadLoop deck play ts s')"

text \<open>
  When no deck is found the source logs \<open>currentDeck->getName()\<close> before it returns false.
  No deck is found only when \<open>currentDeck\<close> is null and both decks hold a track, so that
  call is made through a null pointer.
\<close>

definition loadNextTrack :: "deck_id option \<Rightarrow> bool \<Rightarrow> medley \<Rightarrow> error + (bool \<times> medley)" where
  "loadNextTrack currentDeck play s =
     (case getAnotherDeck s currentDeck of
        None \<Rightarrow> (case currentDeck of None \<Rightarrow> Inl NullPointerDereference | Some c \<Rightarrow> Inr (False, s))
      | Some deck \<Rightarrow>
          (let s1 = (if isTrackLoading (deckOf s deck) then unloadTrack deck s else s)
           in Inr (loadLoop deck play (queue s1) s1)))"

subsection \<open>Deck events\<close>

definition deckStarted :: "deck_id \<Rightarrow> medley \<Rightarrow> medley" where
  "deckStarted sender s = emit (CbDeckStarted sender) s"

definition deckFinished :: "deck_id \<Rightarrow> medley \<Rightarrow> medley" where
  "deckFinished sender s = emit (CbDeckFinished sender) s"

definition deckLoaded :: "deck_id \<Rightarrow> medley \<Rightarrow> medley" where
  "deckLoaded sender s =
     (let s1 = s\<lparr>deckQueue := deckQueue s @ [sender]\<rparr>;
          s2 = markAsMain (hd (deckQueue s1)) True s1
      in emit (CbDeckLoaded sender) s2)"

text \<open>The first block of \<open>Medley::deckUnloaded\<close>: the sender is the transiting deck.\<close>

definition transitingDeckUnloaded :: "deck_id \<Rightarrow> medley \<Rightarrow> error + medley" where
  "transitingDeckUnloaded sender s =
     (case (if transitionState s = Cued
            then (case getAnotherDeck s (transitingDeck s) of
                    None \<Rightarrow> Inl NullPointerDereference
                  | Some nextDeck \<Rightarrow>
                      Inr (if isTrackLoaded (deckOf s nextDeck) then start nextDeck s else s))
            else Inr s) of
        Inl e \<Rightarrow> Inl e
      | Inr s1 \<Rightarrow>
          (let s2 = s1\<lparr>transitionState := Idle, transitingDeck := None\<rparr>
           in Inr (if forceFadingOut s2 > 0 then s2\<lparr>forceFadingOut := forceFadingOut s2 - 1\<rparr> else s2)))"

text \<open>The second block: the deck leaves the deck queue and the new head becomes main.\<close>

definition dequeueDeck :: "deck_id \<Rightarrow> medley \<Rightarrow> medley" where
  "dequeueDeck sender s =
     (let s1 = markAsMain sender False s;
          s2 = s1\<lparr>deckQueue := removeAll sender (deckQueue s1)\<rparr>;
          s3 = (if deckQueue s2 \<noteq> [] then markAsMain (hd (deckQueue s2)) True s2 else s2)
      in emit (CbDeckUnloaded sender) s3)"

text \<open>The last block: keep playing when no deck plays and the queue holds a track.\<close>

definition continuePlaying :: "medley \<Rightarrow> error + medley" where
  "continuePlaying s =
     (if keepPlaying s \<and> \<not> isDeckPlaying s then
        (let shouldContinuePlaying = (length (queue s) > 0);
             s1 = s\<lparr>keepPlaying := shouldContinuePlaying\<rparr>
         in if shouldContinuePlaying
            then (case loadNextTrack None True s1 of Inl e \<Rightarrow> Inl e | Inr (ok, s2) \<Rightarrow> Inr s2)
            else Inr s1)
      else Inr s)"

definition deckUnloaded :: "deck_id \<Rightarrow> medley \<Rightarrow> error + medley" where
  "deckUnloaded sender s =
     (case (if Some sender = transitingDeck s then transitingDeckUnloaded sender s else Inr s) of
        Inl e \<Rightarrow> Inl e
      | Inr s1 \<Rightarrow> continuePlaying (dequeueDeck sender s1))"

subsection \<open>Position events: the transition controller\<close>

datatype flow = Returned medley | Continues medley

text \<open>
  \<open>Medley::deckPosition\<close>, for the main deck, in the blocks of the source. While the state
  is below \<open>Cued\<close>: past the pre-cue point an idle engine announces the pre-cue.
\<close>

definition announcePreCue :: "real \<Rightarrow> real \<Rightarrow> medley \<Rightarrow> medley" where
  "announcePreCue position transitionPreCuePoint s =
     (if transitionState s = Idle \<and> position > transitionPreCuePoint
      then emit CbPreCueNext (s\<lparr>transitionState := Cueing\<rparr>) else s)"

text \<open>
  Then, past the cue point, the next track is loaded; the handler returns when nothing
  loads and no fade-out is forced.
\<close>

definition cueStep ::
  "deck_id \<Rightarrow> deck_id \<Rightarrow> real \<Rightarrow> real \<Rightarrow> real \<Rightarrow> medley \<Rightarrow> error + flow" where
  "cueStep sender nextDeck position transitionPreCuePoint transitionCuePoint s =
     (if ts_rank (transitionState s) < ts_rank Cued then
        (let s1 = announcePreCue position transitionPreCuePoint s;
             fireFinished = (\<lambda>s'. if \<not> isMain (deckOf s' sender) \<and> isTrackLoaded (deckOf s' nextDeck)
                                      \<and> \<not> isPlaying (deckOf s' nextDeck)
                                   then emit (Call nextDeck FireFinishedCallback) s' else s')
         in if position > transitionCuePoint then
              (case loadNextTrack (Some sender) False s1 of
                 Inl e \<Rightarrow> Inl e
               | Inr (loaded, s2) \<Rightarrow>
                   if \<not> loaded \<and> forceFadingOut s2 \<le> 0 then Inr (Returned s2)
                   else Inr (Continues (fireFinished
                          (s2\<lparr>transitionState := Cued, transitingDeck := Some sender\<rparr>))))
            else Inr (Continues (fireFinished s1)))
      else Inr (Continues s))"

text \<open>The second block: past transition start minus the next deck's leading.\<close>

definition transitStep :: "deck_id \<Rightarrow> real \<Rightarrow> real \<Rightarrow> real \<Rightarrow> medley \<Rightarrow> medley" where
  "transitStep nextDeck position transitionStartPos leadingDuration s =
     (if position > transitionStartPos - leadingDuration then
        (let s1 =
           (if transitionState s = Cued then
              (if isTrackLoaded (deckOf s nextDeck) then
                 (let sa = setVolume nextDeck (Fin 1) (s\<lparr>transitionState := Transit\<rparr>);
                      sb = (if forceFadingOut sa > 0 then
                              (if leadingDuration \<ge> maxLeadingDuration sa
                               then setPosition nextDeck
                                      (getFirstAudiblePosition (deckOf sa nextDeck)
                                         + leadingDuration - maxLeadingDuration sa) sa
                               else sa)
                            else sa)
                  in start nextDeck sb)
               else s)
            else s)
         in if transitionState s1 = Transit then
              (if leadingDuration \<ge> maxLeadingDuration s1 then
                 (let fadeInProgress =
                        jlimit_x 0.25 1
                          (fdiv (position - (transitionStartPos - leadingDuration)) leadingDuration)
                  in setVolume nextDeck (narrow (pow fadeInProgress (fadingFactor s1))) s1)
               else s1)
            else s1)
      else s)"

text \<open>The third block: from transition start on.\<close>

definition fadeOutStep :: "deck_id \<Rightarrow> real \<Rightarrow> real \<Rightarrow> real \<Rightarrow> medley \<Rightarrow> medley" where
  "fadeOutStep sender position transitionStartPos transitionEndPos s =
     (if position \<ge> transitionStartPos then
        (let transitionDuration = transitionEndPos - transitionStartPos;
             transitionProgress =
               jlimit_x 0 1 (fdiv (position - transitionStartPos) transitionDuration);
             s1 = (if transitionDuration > 0
                   then setVolume sender
                          (narrow (pow (one_minus transitionProgress) (fadingFactor s))) s
                   else s)
         in if transitionState s1 \<noteq> Idle \<and> position > transitionEndPos then
              (if xge transitionProgress (Fin 1) then stop_deck sender s1 else s1)
            else s1)
      else s)"

definition deckPosition :: "deck_id \<Rightarrow> real \<Rightarrow> medley \<Rightarrow> error + medley" where
  "deckPosition sender position s =
     (let s0 = emit (CbDeckPosition sender position) s
      in case getAnotherDeck s0 (Some sender) of
           None \<Rightarrow> Inr s0
         | Some nextDeck \<Rightarrow>
             if isMain (deckOf s0 sender) then
               (let transitionPreCuePoint = getTransitionPreCuePosition (deckOf s0 sender);
                    transitionCuePoint = getTransitionCuePosition (deckOf s0 sender);
                    transitionStartPos = getTransitionStartPosition (deckOf s0 sender);
                    transitionEndPos = getTransitionEndPosition (deckOf s0 sender);
                    leadingDuration = getLeadingDuration (deckOf s0 nextDeck)
                in case cueStep sender nextDeck position transitionPreCuePoint transitionCuePoint s0 of
                     Inl e \<Rightarrow> Inl e
                   | Inr (Returned s1) \<Rightarrow> Inr s1
                   | Inr (Continues s1) \<Rightarrow>
                       Inr (fadeOutStep sender position transitionStartPos transitionEndPos
                              (transitStep nextDeck position transitionStartPos leadingDuration s1)))
             else if deckQueue s0 \<noteq> [] then
               (if hd (deckQueue s0) = sender then Inr (markAsMain sender True s0) else Inr s0)
             else Inr s0)"

subsection \<open>Operations of the caller\<close>

text \<open>
  Modelled from the spec: \<open>Deck::fadeOut\<close>, \<open>Deck::setMaxTransitionTime\<close> and
  \<open>Deck::setPositionFractional\<close> (Deck.cpp is not part of the sources) are recorded as
  calls; what they do to the anchors of the deck arrives with the deck's own changes.
\<close>

definition fadeOutMainDeck :: "medley \<Rightarrow> medley" where
  "fadeOutMainDeck s =
     (case getMainDeck s of
        None \<Rightarrow> s
      | Some deck \<Rightarrow>
          (let s1 = s\<lparr>forceFadingOut := forceFadingOut s + 1\<rparr>;
               s2 = (if transitionState s1 = Transit
                     then (unloadTrack deck s1)\<lparr>transitionState := Idle\<rparr> else s1);
               deck' = (if transitionState s1 = Transit then getMainDeck s2 else Some deck)
           in case deck' of
                None \<Rightarrow> s2
              | Some d \<Rightarrow> setPause False (emit (Call d FadeOut) s2)))"

definition play :: "medley \<Rightarrow> error + medley" where
  "play s =
     (case (if \<not> isDeckPlaying s
            then (case loadNextTrack None True s of Inl e \<Rightarrow> Inl e | Inr (ok, s1) \<Rightarrow> Inr s1)
            else Inr s) of
        Inl e \<Rightarrow> Inl e
      | Inr s1 \<Rightarrow> Inr (setPause False (s1\<lparr>keepPlaying := True\<rparr>)))"

definition stop :: "medley \<Rightarrow> medley" where
  "stop s =
     unloadTrack DeckB (unloadTrack DeckA (stop_deck DeckB (stop_deck DeckA
       (s\<lparr>keepPlaying := False\<rparr>))))"

definition setMaxTransitionTime :: "real \<Rightarrow> medley \<Rightarrow> medley" where
  "setMaxTransitionTime v s =
     emit (Call DeckB (SetMaxTransitionTime v)) (emit (Call DeckA (SetMaxTransitionTime v))
       (s\<lparr>maxTransitionTime := v\<rparr>))"

definition setPositionInSeconds :: "real \<Rightarrow> medley \<Rightarrow> medley" where
  "setPositionInSeconds time s =
     (case getMainDeck s of None \<Rightarrow> s | Some deck \<Rightarrow> setPosition deck time s)"

definition setPositionFractional :: "real \<Rightarrow> medley \<Rightarrow> medley" where
  "setPositionFractional fraction s =
     (case getMainDeck s of
        None \<Rightarrow> s
      | Some deck \<Rightarrow> emit (Call deck (SetPositionFractional fraction)) s)"

section \<open>Runs of the engine\<close>

text \<open>
  Modelled from the spec: a new deck is empty and not main, and a new engine is idle with
  no transiting deck, a zero fade counter and \<open>keepPlaying\<close> off (the member initialisers
  are in Deck.h and Medley.h, which are not part of the sources). The defaults of the
  settings are parameters. The constructor calls \<open>updateFadingFactor\<close>.
\<close>

definition newDeck :: deck where
  "newDeck =
     \<lparr>isTrackLoaded = False, isTrackLoading = False, isPlaying = False, isMain = False,
      volume = Fin 1, getFirstAudiblePosition = 0, getLeadingDuration = 0,
      getTransitionPreCuePosition = 0, getTransitionCuePosition = 0,
      getTransitionStartPosition = 0, getTransitionEndPosition = 0\<rparr>"

definition newMedley :: "real \<Rightarrow> real \<Rightarrow> real \<Rightarrow> track list \<Rightarrow> medley" where
  "newMedley curve0 maxLeading0 maxTransition0 q =
     updateFadingFactor
       \<lparr>deck1 = newDeck, deck2 = newDeck, deckQueue = [], transitionState = Idle,
        transitingDeck = None, forceFadingOut = 0, keepPlaying = False,
        fadingCurve = curve0, fadingFactor = Fin 0, maxLeadingDuration = maxLeading0,
        maxTransitionTime = maxTransition0, queue = q, mix = \<lparr>paused = False\<rparr>, trace = []\<rparr>"

text \<open>
  What can happen to an engine: a deck event, a call of the caller, and two changes from
  outside. \<open>EnvDeck\<close> is a change the deck makes to itself on its own threads (a load
  that completes, the scan that publishes the anchors, playback that ends); only
  \<open>markAsMain\<close> sets the main flag, so such a change keeps it. \<open>EnvQueue\<close> is the caller
  changing the track queue.
\<close>

datatype event =
    EvDeckStarted deck_id
  | EvDeckFinished deck_id
  | EvDeckLoaded deck_id
  | EvDeckUnloaded deck_id
  | EvDeckPosition deck_id real
  | EvPlay
  | EvStop
  | EvFadeOutMainDeck
  | EvTogglePause
  | EvSetFadingCurve real
  | EvSetMaxTransitionTime real
  | EvSetMaxLeadingDuration real
  | EvSetPositionInSeconds real
  | EvSetPositionFractional real
  | EnvDeck deck_id deck
  | EnvQueue "track list"

text \<open>
  Modelled from the spec: \<open>setMaxLeadingDuration\<close> (defined in Medley.h, which is not part
  of the sources) stores the setting.
\<close>

fun step :: "event \<Rightarrow> medley \<Rightarrow> error + medley" where
  "step (EvDeckStarted d) s = Inr (deckStarted d s)"
| "step (EvDeckFinished d) s = Inr (deckFinished d s)"
| "step (EvDeckLoaded d) s = Inr (deckLoaded d s)"
| "step (EvDeckUnloaded d) s = deckUnloaded d s"
| "step (EvDeckPosition d p) s = deckPosition d p s"
| "step EvPlay s = play s"
| "step EvStop s = Inr (stop s)"
| "step EvFadeOutMainDeck s = Inr (fadeOutMainDeck s)"
| "step EvTogglePause s = Inr (s\<lparr>mix := snd (togglePause (mix s))\<rparr>)"
| "step (EvSetFadingCurve c) s = Inr (setFadingCurve c s)"
| "step (EvSetMaxTransitionTime v) s = Inr (setMaxTransitionTime v s)"
| "step (EvSetMaxLeadingDuration v) s = Inr (s\<lparr>maxLeadingDuration := v\<rparr>)"
| "step (EvSetPositionInSeconds t) s = Inr (setPositionInSeconds t s)"
| "step (EvSetPositionFractional f) s = Inr (setPositionFractional f s)"
| "step (EnvDeck d dk) s = Inr (updDeck d (\<lambda>old. dk\<lparr>isMain := isMain old\<rparr>) s)"
| "step (EnvQueue q) s = Inr (s\<lparr>queue := q\<rparr>)"

fun run :: "event list \<Rightarrow> medley \<Rightarrow> error + medley" where
  "run [] s = Inr s"
| "run (e # es) s = (case step e s of Inl x \<Rightarrow> Inl x | Inr s' \<Rightarrow> run es s')"

section \<open>Counting and example states\<close>

text \<open>The calls that \<open>loadNextTrack\<close> makes on a deck.\<close>

fun isLoadCall :: "action \<Rightarrow> bool" where
  "isLoadCall (Call d (LoadTrack t p)) = True"
| "isLoadCall (Call d UnloadTrack) = True"
| "isLoadCall a = False"

text \<open>The state a block of the position handler ends in.\<close>

fun flowState :: "flow \<Rightarrow> medley" where
  "flowState (Returned s) = s"
| "flowState (Continues s) = s"

text \<open>The pre-cue announcements recorded so far.\<close>

definition preCues :: "medley \<Rightarrow> nat" where
  "preCues s = count_list (trace s) CbPreCueNext"

text \<open>
  The number of steps of a run at which the transition state re-enters \<open>Idle\<close>: the
  transition cycles that the run ends.
\<close>

fun cyclesEnded :: "event list \<Rightarrow> medley \<Rightarrow> nat" where
  "cyclesEnded [] s = 0"
| "cyclesEnded (e # es) s =
     (case step e s of
        Inl x \<Rightarrow> 0
      | Inr s' \<Rightarrow>
          (if transitionState s \<noteq> Idle \<and> transitionState s' = Idle then 1 else 0)
            + cyclesEnded es s')"

text \<open>
  What holds in every state the engine reaches: a deck is main exactly when it is the head
  of the deck queue; from \<open>Cued\<close> on, the transiting deck is that head; the fade counter
  is not negative.
\<close>

definition engineInv :: "medley \<Rightarrow> bool" where
  "engineInv s =
     ((\<forall>d. isMain (deckOf s d) = (getMainDeck s = Some d))
      \<and> (ts_rank (transitionState s) < ts_rank Cued
          \<or> transitingDeck s \<noteq> None \<and> transitingDeck s = getMainDeck s)
      \<and> forceFadingOut s \<ge> 0)"

text \<open>
  The steps that announce a pre-cue, and the steps that can end a transition cycle: the
  transiting deck emits its unloaded event, or a forced fade-out unloads it in \<open>Transit\<close>.
\<close>

fun firesPreCue :: "event \<Rightarrow> medley \<Rightarrow> bool" where
  "firesPreCue (EvDeckPosition d p) s =
     (isMain (deckOf s d) \<and> transitionState s = Idle
      \<and> p > getTransitionPreCuePosition (deckOf s d))"
| "firesPreCue e s = False"

fun endsTransition :: "event \<Rightarrow> medley \<Rightarrow> bool" where
  "endsTransition (EvDeckUnloaded d) s = (transitingDeck s = Some d)"
| "endsTransition EvFadeOutMainDeck s =
     (transitionState s = Transit \<and> transitingDeck s \<noteq> None \<and> getMainDeck s = transitingDeck s)"
| "endsTransition e s = False"

text \<open>
  Example states: deck A is main and plays a track whose pre-cue, cue, transition start
  and transition end are at 4, 8, 10 and 12 seconds; deck B holds a track with one second
  of leading. The maximal leading duration is half a second and the fading factor is 1.
\<close>

definition exampleDeck :: deck where
  "exampleDeck =
     \<lparr>isTrackLoaded = True, isTrackLoading = False, isPlaying = False, isMain = False,
      volume = Fin 1, getFirstAudiblePosition = 1, getLeadingDuration = 1,
      getTransitionPreCuePosition = 4, getTransitionCuePosition = 8,
      getTransitionStartPosition = 10, getTransitionEndPosition = 12\<rparr>"

definition exampleMedley :: "TransitionState \<Rightarrow> int \<Rightarrow> medley" where
  "exampleMedley st force =
     \<lparr>deck1 = exampleDeck\<lparr>isPlaying := True, isMain := True\<rparr>, deck2 = exampleDeck,
      deckQueue = [DeckA, DeckB], transitionState = st,
      transitingDeck = (if ts_rank st < ts_rank Cued then None else Some DeckA),
      forceFadingOut = force, keepPlaying = True, fadingCurve = 0, fadingFactor = Fin 1,
      maxLeadingDuration = 1 / 2, maxTransitionTime = 2, queue = [], mix = \<lparr>paused = False\<rparr>,
      trace = []\<rparr>"

text \<open>
  The first example state at the cue, after the caller has set the steepest fading curve
  (100).
\<close>

definition steepFadeExample :: medley where
  "steepFadeExample = setFadingCurve 100 (exampleMedley Cued 0)"

section \<open>The transition anchors of a scanned track\<close>









section \<open>Decks and their events\<close>

text \<open>
  Modelled from the spec: how the loaded state of a deck and its events go together
  (Deck.cpp is not part of the sources). A deck emits \<open>loaded\<close> when its load completes
  and \<open>unloaded\<close> when it releases its track, and the deck queue is the list of the decks
  that hold a loaded track: the engine handles each of the two events together with the
  change of the deck. So a load that completes makes the deck loaded and runs
  \<open>deckLoaded\<close>, and a deck that releases its track, at its end or on its own, becomes
  empty and runs \<open>deckUnloaded\<close>.
\<close>

definition deckBecomesLoaded :: "deck_id \<Rightarrow> medley \<Rightarrow> medley" where
  "deckBecomesLoaded d s =
     deckLoaded d (updDeck d (\<lambda>dk. dk\<lparr>isTrackLoaded := True, isTrackLoading := False\<rparr>) s)"

definition deckBecomesEmpty :: "deck_id \<Rightarrow> medley \<Rightarrow> error + medley" where
  "deckBecomesEmpty d s = deckUnloaded d (updDeck d deck_unloadTrack s)"

text \<open>
  Modelled from the spec: a deck that held a track before an operation of the engine and
  holds none after it has been unloaded by the engine (\<open>stop\<close>, a forced fade-out during
  the transition, a load onto a deck that is still loading); it emits \<open>unloaded\<close>, and the
  engine handles the event when the operation is over.
\<close>

definition deliverUnloaded :: "medley \<Rightarrow> deck_id \<Rightarrow> medley \<Rightarrow> error + medley" where
  "deliverUnloaded before d s =
     (if isTrackLoaded (deckOf before d) \<and> \<not> isTrackLoaded (deckOf s d)
      then deckUnloaded d s else Inr s)"

text \<open>
  Modelled from the spec: a step of the engine with its decks. The loaded and the unloaded
  event come with the change of the deck; any other change a deck makes to itself (the
  scan that publishes the anchors, playback that starts or ends, a load that begins)
  keeps its main flag and whether it holds a track; every other event is the step of the
  engine, followed by the unloaded events of the decks that the step has unloaded.
\<close>

fun deckStep :: "event \<Rightarrow> medley \<Rightarrow> error + medley" where
  "deckStep (EvDeckLoaded d) s = Inr (deckBecomesLoaded d s)"
| "deckStep (EvDeckUnloaded d) s = deckBecomesEmpty d s"
| "deckStep (EnvDeck d dk) s =
     Inr (updDeck d (\<lambda>old. dk\<lparr>isMain := isMain old, isTrackLoaded := isTrackLoaded old\<rparr>) s)"
| "deckStep e s =
     (case step e s of
        Inl x \<Rightarrow> Inl x
      | Inr s1 \<Rightarrow>
          (case deliverUnloaded s DeckA s1 of
             Inl x \<Rightarrow> Inl x
           | Inr s2 \<Rightarrow> deliverUnloaded s DeckB s2))"

fun deckRun :: "event list \<Rightarrow> medley \<Rightarrow> error + medley" where
  "deckRun [] s = Inr s"
| "deckRun (e # es) s = (case deckStep e s of Inl x \<Rightarrow> Inl x | Inr s' \<Rightarrow> deckRun es s')"

text \<open>The deck queue holds exactly the decks that hold a loaded track.\<close>

definition queueIsLoaded :: "medley \<Rightarrow> bool" where
  "queueIsLoaded s = (\<forall>d. (d \<in> set (deckQueue s)) = isTrackLoaded (deckOf s d))"

section \<open>What each operation leaves unchanged\<close>

lemma deckOf_updDeck [simp]:
  "deckOf (updDeck d f s) d' = (if d' = d then f (deckOf s d) else deckOf s d')"
  by (simp add: deckOf_def updDeck_def split: deck_id.splits)

lemma deckOf_emit [simp]: "deckOf (emit a s) d = deckOf s d"
  by (simp add: deckOf_def emit_def split: deck_id.splits)

lemma deckOf_fields [simp]:
  "deckOf (s\<lparr>deckQueue := q\<rparr>) d = deckOf s d"
  "deckOf (s\<lparr>transitionState := ts\<rparr>) d = deckOf s d"
  "deckOf (s\<lparr>transitingDeck := td\<rparr>) d = deckOf s d"
  "deckOf (s\<lparr>forceFadingOut := n\<rparr>) d = deckOf s d"
  "deckOf (s\<lparr>keepPlaying := k\<rparr>) d = deckOf s d"
  "deckOf (s\<lparr>fadingCurve := c\<rparr>) d = deckOf s d"
  "deckOf (s\<lparr>fadingFactor := ff\<rparr>) d = deckOf s d"
  "deckOf (s\<lparr>maxLeadingDuration := ml\<rparr>) d = deckOf s d"
  "deckOf (s\<lparr>maxTransitionTime := mt\<rparr>) d = deckOf s d"
  "deckOf (s\<lparr>queue := tq\<rparr>) d = deckOf s d"
  "deckOf (s\<lparr>mix := m\<rparr>) d = deckOf s d"
  "deckOf (s\<lparr>trace := tr\<rparr>) d = deckOf s d"
  by (simp_all add: deckOf_def split: deck_id.splits)

lemma updDeck_fields [simp]:
  "deckQueue (updDeck d f s) = deckQueue s"
  "transitionState (updDeck d f s) = transitionState s"
  "transitingDeck (updDeck d f s) = transitingDeck s"
  "forceFadingOut (updDeck d f s) = forceFadingOut s"
  "keepPlaying (updDeck d f s) = keepPlaying s"
  "fadingCurve (updDeck d f s) = fadingCurve s"
  "fadingFactor (updDeck d f s) = fadingFactor s"
  "maxLeadingDuration (updDeck d f s) = maxLeadingDuration s"
  "maxTransitionTime (updDeck d f s) = maxTransitionTime s"
  "queue (updDeck d f s) = queue s"
  "mix (updDeck d f s) = mix s"
  "trace (updDeck d f s) = trace s"
  by (simp_all add: updDeck_def split: deck_id.splits)

lemma emit_fields [simp]:
  "deckQueue (emit a s) = deckQueue s"
  "transitionState (emit a s) = transitionState s"
  "transitingDeck (emit a s) = transitingDeck s"
  "forceFadingOut (emit a s) = forceFadingOut s"
  "keepPlaying (emit a s) = keepPlaying s"
  "fadingCurve (emit a s) = fadingCurve s"
  "fadingFactor (emit a s) = fadingFactor s"
  "maxLeadingDuration (emit a s) = maxLeadingDuration s"
  "maxTransitionTime (emit a s) = maxTransitionTime s"
  "queue (emit a s) = queue s"
  "mix (emit a s) = mix s"
  "trace (emit a s) = trace s @ [a]"
  by (simp_all add: emit_def)

lemma other_neq [simp]: "other d \<noteq> d" "d \<noteq> other d"
  by (cases d; simp)+

lemma getAnotherDeck_Some [simp]: "getAnotherDeck s (Some d) = Some (other d)"
  by (cases d) (simp_all add: getAnotherDeck_def)

lemmas deck_ops =
  loadTrack_def unloadTrack_def start_def stop_deck_def setVolume_def setPosition_def
  markAsMain_def deck_loadTrack_def deck_unloadTrack_def deck_start_def deck_stop_def

lemma isDeckPlaying_deckOf: "isDeckPlaying s = (isPlaying (deckOf s DeckA) \<or> isPlaying (deckOf s DeckB))"
  by (simp add: isDeckPlaying_def deckOf_def)

lemma isDeckPlaying_I: "isPlaying (deckOf s d) \<Longrightarrow> isDeckPlaying s"
  by (cases d) (simp_all add: isDeckPlaying_deckOf)

lemma getAvailableDeck_sender:
  "\<not> isTrackLoaded (deckOf s d) \<Longrightarrow> getAvailableDeck s \<noteq> None"
  by (cases d) (simp_all add: getAvailableDeck_def deckOf_def)

lemma loadTrack_frame:
  "loadTrack deck t pl s = (ok, s') \<Longrightarrow>
     transitionState s' = transitionState s \<and> transitingDeck s' = transitingDeck s
     \<and> forceFadingOut s' = forceFadingOut s \<and> deckQueue s' = deckQueue s
     \<and> keepPlaying s' = keepPlaying s \<and> fadingFactor s' = fadingFactor s
     \<and> maxLeadingDuration s' = maxLeadingDuration s \<and> queue s' = queue s
     \<and> deckOf s' (other deck) = deckOf s (other deck)
     \<and> isMain (deckOf s' deck) = isMain (deckOf s deck)
     \<and> volume (deckOf s' deck) = volume (deckOf s deck)
     \<and> isPlaying (deckOf s' deck) = isPlaying (deckOf s deck)
     \<and> isTrackLoaded (deckOf s' deck) = isTrackLoaded (deckOf s deck)
     \<and> getFirstAudiblePosition (deckOf s' deck) = getFirstAudiblePosition (deckOf s deck)
     \<and> trace s' = trace s @ [Call deck (LoadTrack t pl)]"
  by (auto simp: deck_ops split: if_splits)

lemma loadLoop_frame:
  "loadLoop deck pl ts s = (ok, s') \<Longrightarrow>
     transitionState s' = transitionState s \<and> transitingDeck s' = transitingDeck s
     \<and> forceFadingOut s' = forceFadingOut s \<and> deckQueue s' = deckQueue s
     \<and> keepPlaying s' = keepPlaying s \<and> fadingFactor s' = fadingFactor s
     \<and> maxLeadingDuration s' = maxLeadingDuration s
     \<and> deckOf s' (other deck) = deckOf s (other deck)
     \<and> isMain (deckOf s' deck) = isMain (deckOf s deck)
     \<and> volume (deckOf s' deck) = volume (deckOf s deck)
     \<and> isPlaying (deckOf s' deck) = isPlaying (deckOf s deck)
     \<and> isTrackLoaded (deckOf s' deck) = isTrackLoaded (deckOf s deck)
     \<and> getFirstAudiblePosition (deckOf s' deck) = getFirstAudiblePosition (deckOf s deck)
     \<and> (\<exists>r. trace s' = trace s @ r \<and> (\<forall>a \<in> set r. isLoadCall a))"
proof (induction ts arbitrary: s)
  case Nil
  then show ?case by auto
next
  case (Cons t ts)
  obtain ok1 s1 where l: "loadTrack deck t pl (s\<lparr>queue := ts\<rparr>) = (ok1, s1)"
    by (cases "loadTrack deck t pl (s\<lparr>queue := ts\<rparr>)") auto
  note f = loadTrack_frame [OF l]
  show ?case
  proof (cases ok1)
    case True
    with Cons.prems l have "s' = s1" by simp
    with f show ?thesis by simp
  next
    case False
    with Cons.prems l have "loadLoop deck pl ts s1 = (ok, s')" by simp
    from Cons.IH [OF this] f show ?thesis by auto
  qed
qed

lemma other_other [simp]: "other (other d) = d"
  by (cases d) simp_all

lemma deck_cases: "d' = d \<or> d' = other d"
  by (cases d; cases d') simp_all

lemma unloadTrack_frame:
  "transitionState (unloadTrack deck s) = transitionState s"
  "transitingDeck (unloadTrack deck s) = transitingDeck s"
  "forceFadingOut (unloadTrack deck s) = forceFadingOut s"
  "deckQueue (unloadTrack deck s) = deckQueue s"
  "keepPlaying (unloadTrack deck s) = keepPlaying s"
  "fadingFactor (unloadTrack deck s) = fadingFactor s"
  "maxLeadingDuration (unloadTrack deck s) = maxLeadingDuration s"
  "queue (unloadTrack deck s) = queue s"
  "isMain (deckOf (unloadTrack deck s) d) = isMain (deckOf s d)"
  "volume (deckOf (unloadTrack deck s) d) = volume (deckOf s d)"
  "deckOf (unloadTrack deck s) (other deck) = deckOf s (other deck)"
  "trace (unloadTrack deck s) = trace s @ [Call deck UnloadTrack]"
  by (simp_all add: unloadTrack_def deck_unloadTrack_def)

lemma loadNextTrack_frame:
  assumes "loadNextTrack cur pl s = Inr (ok, s')"
  shows "transitionState s' = transitionState s \<and> transitingDeck s' = transitingDeck s
     \<and> forceFadingOut s' = forceFadingOut s \<and> deckQueue s' = deckQueue s
     \<and> keepPlaying s' = keepPlaying s \<and> fadingFactor s' = fadingFactor s
     \<and> maxLeadingDuration s' = maxLeadingDuration s
     \<and> isMain (deckOf s' d) = isMain (deckOf s d)
     \<and> volume (deckOf s' d) = volume (deckOf s d)
     \<and> (\<forall>c. cur = Some c \<longrightarrow> deckOf s' c = deckOf s c)
     \<and> (\<exists>r. trace s' = trace s @ r \<and> (\<forall>a \<in> set r. isLoadCall a))"
proof (cases "getAnotherDeck s cur")
  case None
  with assms have "s' = s" by (auto simp: loadNextTrack_def split: option.splits)
  then show ?thesis by simp
next
  case (Some deck)
  define s1 where "s1 = (if isTrackLoading (deckOf s deck) then unloadTrack deck s else s)"
  from assms Some have l: "loadLoop deck pl (queue s1) s1 = (ok, s')"
    by (simp add: loadNextTrack_def s1_def Let_def)
  note L = loadLoop_frame [OF l]
  have s1: "transitionState s1 = transitionState s" "transitingDeck s1 = transitingDeck s"
     "forceFadingOut s1 = forceFadingOut s" "deckQueue s1 = deckQueue s"
     "keepPlaying s1 = keepPlaying s" "fadingFactor s1 = fadingFactor s"
     "maxLeadingDuration s1 = maxLeadingDuration s"
     "deckOf s1 (other deck) = deckOf s (other deck)"
    by (simp_all add: s1_def unloadTrack_frame)
  have s1d: "isMain (deckOf s1 x) = isMain (deckOf s x)"
     "volume (deckOf s1 x) = volume (deckOf s x)" for x
    by (simp_all add: s1_def unloadTrack_frame)
  have t1: "\<exists>r. trace s1 = trace s @ r \<and> (\<forall>a \<in> set r. isLoadCall a)"
    by (simp add: s1_def unloadTrack_frame)
  have d: "isMain (deckOf s' d) = isMain (deckOf s d) \<and> volume (deckOf s' d) = volume (deckOf s d)"
  proof (cases "d = deck")
    case True
    with L s1d show ?thesis by simp
  next
    case False
    then have "d = other deck" using deck_cases [of d deck] by simp
    with L s1d show ?thesis by simp
  qed
  have c: "deckOf s' c = deckOf s c" if "cur = Some c" for c
  proof -
    from that Some have "c = other deck" by auto
    with L s1 show ?thesis by simp
  qed
  from L obtain r2 where r2: "trace s' = trace s1 @ r2" "\<forall>a \<in> set r2. isLoadCall a" by blast
  from t1 obtain r1 where r1: "trace s1 = trace s @ r1" "\<forall>a \<in> set r1. isLoadCall a" by blast
  have t: "\<exists>r. trace s' = trace s @ r \<and> (\<forall>a \<in> set r. isLoadCall a)"
    using r1 r2 by (intro exI [of _ "r1 @ r2"]) auto
  from L s1 have f: "transitionState s' = transitionState s" "transitingDeck s' = transitingDeck s"
     "forceFadingOut s' = forceFadingOut s" "deckQueue s' = deckQueue s"
     "keepPlaying s' = keepPlaying s" "fadingFactor s' = fadingFactor s"
     "maxLeadingDuration s' = maxLeadingDuration s"
    by simp_all
  show ?thesis using f d c t by blast
qed

lemmas example_defs =
  exampleMedley_def exampleDeck_def newMedley_def newDeck_def updateFadingFactor_def deckOf_def

lemma cueStep_skip:
  "ts_rank (transitionState s) \<ge> ts_rank Cued \<Longrightarrow> cueStep sender n position a b s = Inr (Continues s)"
  by (simp add: cueStep_def)

lemma deckPosition_main:
  "isMain (deckOf s sender) \<Longrightarrow>
   deckPosition sender position s =
     (case cueStep sender (other sender) position
             (getTransitionPreCuePosition (deckOf s sender))
             (getTransitionCuePosition (deckOf s sender))
             (emit (CbDeckPosition sender position) s) of
        Inl e \<Rightarrow> Inl e
      | Inr (Returned s1) \<Rightarrow> Inr s1
      | Inr (Continues s1) \<Rightarrow>
          Inr (fadeOutStep sender position
                 (getTransitionStartPosition (deckOf s sender))
                 (getTransitionEndPosition (deckOf s sender))
                 (transitStep (other sender) position
                    (getTransitionStartPosition (deckOf s sender))
                    (getLeadingDuration (deckOf s (other sender))) s1)))"
  by (simp add: deckPosition_def Let_def)

lemma fadeOutStep_frame:
  "transitionState (fadeOutStep sender position a b s) = transitionState s"
  "transitingDeck (fadeOutStep sender position a b s) = transitingDeck s"
  "forceFadingOut (fadeOutStep sender position a b s) = forceFadingOut s"
  "deckQueue (fadeOutStep sender position a b s) = deckQueue s"
  "maxLeadingDuration (fadeOutStep sender position a b s) = maxLeadingDuration s"
  "fadingFactor (fadeOutStep sender position a b s) = fadingFactor s"
  "deckOf (fadeOutStep sender position a b s) (other sender) = deckOf s (other sender)"
  "isMain (deckOf (fadeOutStep sender position a b s) d) = isMain (deckOf s d)"
  "getLeadingDuration (deckOf (fadeOutStep sender position a b s) d) = getLeadingDuration (deckOf s d)"
  "getTransitionStartPosition (deckOf (fadeOutStep sender position a b s) d) = getTransitionStartPosition (deckOf s d)"
  by (simp_all add: fadeOutStep_def Let_def setVolume_def stop_deck_def deck_stop_def)

lemma fadeOutStep_trace:
  "\<exists>r. trace (fadeOutStep sender position a b s) = trace s @ r \<and> CbPreCueNext \<notin> set r"
  by (simp add: fadeOutStep_def Let_def setVolume_def stop_deck_def)

lemma loadLoop_ok:
  "\<not> isTrackLoading (deckOf s deck) \<Longrightarrow>
   fst (loadLoop deck pl ts s) = (\<exists>t \<in> set ts. loadable t)"
proof (induction ts arbitrary: s)
  case Nil
  then show ?case by simp
next
  case (Cons t ts)
  show ?case
  proof (cases "loadable t")
    case True
    with Cons.prems show ?thesis
      by (simp add: loadTrack_def deck_loadTrack_def)
  next
    case False
    let ?s1 = "emit (Call deck (LoadTrack t pl)) (updDeck deck (\<lambda>_. deckOf s deck) (s\<lparr>queue := ts\<rparr>))"
    from False Cons.prems
    have l: "loadLoop deck pl (t # ts) s = loadLoop deck pl ts ?s1"
      by (simp add: loadTrack_def deck_loadTrack_def)
    have "\<not> isTrackLoading (deckOf ?s1 deck)"
      using Cons.prems by simp
    from Cons.IH [OF this] l False show ?thesis by simp
  qed
qed

lemma loadNextTrack_Some:
  "\<exists>ok s'. loadNextTrack (Some sender) pl s = Inr (ok, s')
      \<and> ok = (\<exists>t \<in> set (queue s). loadable t)"
proof -
  define s1 where "s1 = (if isTrackLoading (deckOf s (other sender)) then unloadTrack (other sender) s else s)"
  have q: "queue s1 = queue s" and nl: "\<not> isTrackLoading (deckOf s1 (other sender))"
    by (simp_all add: s1_def unloadTrack_def deck_unloadTrack_def)
  have "loadNextTrack (Some sender) pl s = Inr (loadLoop (other sender) pl (queue s1) s1)"
    by (simp add: loadNextTrack_def s1_def Let_def)
  with loadLoop_ok [OF nl, of pl "queue s1"] q show ?thesis
    by (cases "loadLoop (other sender) pl (queue s) s1") auto
qed

lemma announcePreCue_frame:
  "transitingDeck (announcePreCue position a s) = transitingDeck s"
  "forceFadingOut (announcePreCue position a s) = forceFadingOut s"
  "deckQueue (announcePreCue position a s) = deckQueue s"
  "queue (announcePreCue position a s) = queue s"
  "maxLeadingDuration (announcePreCue position a s) = maxLeadingDuration s"
  "fadingFactor (announcePreCue position a s) = fadingFactor s"
  "deckOf (announcePreCue position a s) d = deckOf s d"
  "ts_rank (transitionState s) < ts_rank Cued \<Longrightarrow>
     ts_rank (transitionState (announcePreCue position a s)) < ts_rank Cued"
  by (simp_all add: announcePreCue_def)

lemma transitStep_frame:
  "transitingDeck (transitStep n position a l s) = transitingDeck s"
  "forceFadingOut (transitStep n position a l s) = forceFadingOut s"
  "deckQueue (transitStep n position a l s) = deckQueue s"
  "maxLeadingDuration (transitStep n position a l s) = maxLeadingDuration s"
  "fadingFactor (transitStep n position a l s) = fadingFactor s"
  "deckOf (transitStep n position a l s) (other n) = deckOf s (other n)"
  "isMain (deckOf (transitStep n position a l s) d) = isMain (deckOf s d)"
  "getLeadingDuration (deckOf (transitStep n position a l s) d) = getLeadingDuration (deckOf s d)"
  "getTransitionStartPosition (deckOf (transitStep n position a l s) d) = getTransitionStartPosition (deckOf s d)"
  by (simp_all add: transitStep_def Let_def setVolume_def setPosition_def start_def deck_start_def)

lemma transitStep_state:
  "transitionState (transitStep n position a l s) =
     (if transitionState s = Cued \<and> position > a - l \<and> isTrackLoaded (deckOf s n)
      then Transit else transitionState s)"
  by (simp add: transitStep_def Let_def setVolume_def setPosition_def start_def)

lemma transitStep_trace:
  "\<exists>r. trace (transitStep n position a l s) = trace s @ r \<and> CbPreCueNext \<notin> set r"
  by (simp add: transitStep_def Let_def setVolume_def setPosition_def start_def)

lemma cueStep_total:
  "\<exists>fl. cueStep sender (other sender) position a b s = Inr fl"
proof -
  obtain ok s2 where "loadNextTrack (Some sender) False (announcePreCue position a s) = Inr (ok, s2)"
    using loadNextTrack_Some by blast
  then show ?thesis by (simp add: cueStep_def Let_def)
qed

lemma deckPosition_total: "\<exists>s'. deckPosition sender position s = Inr s'"
proof (cases "isMain (deckOf s sender)")
  case True
  obtain fl where "cueStep sender (other sender) position
             (getTransitionPreCuePosition (deckOf s sender))
             (getTransitionCuePosition (deckOf s sender))
             (emit (CbDeckPosition sender position) s) = Inr fl"
    using cueStep_total by blast
  with True show ?thesis by (cases fl) (simp_all add: deckPosition_main)
next
  case False
  then show ?thesis by (simp add: deckPosition_def Let_def)
qed

lemma announcePreCue_trace:
  "trace (announcePreCue position a s) =
     trace s @ (if transitionState s = Idle \<and> position > a then [CbPreCueNext] else [])"
  by (simp add: announcePreCue_def)

lemma cueStep_frame:
  assumes "cueStep sender (other sender) position a b s = Inr fl"
  shows "deckOf (flowState fl) sender = deckOf s sender
    \<and> volume (deckOf (flowState fl) d) = volume (deckOf s d)
    \<and> isMain (deckOf (flowState fl) d) = isMain (deckOf s d)
    \<and> deckQueue (flowState fl) = deckQueue s
    \<and> forceFadingOut (flowState fl) = forceFadingOut s
    \<and> maxLeadingDuration (flowState fl) = maxLeadingDuration s
    \<and> fadingFactor (flowState fl) = fadingFactor s
    \<and> (\<exists>r1 r2. trace (flowState fl) =
           trace s @ (if ts_rank (transitionState s) < ts_rank Cued \<and> transitionState s = Idle
                         \<and> position > a then [CbPreCueNext] else []) @ r1 @ r2
         \<and> (\<forall>x \<in> set r1. isLoadCall x)
         \<and> (r2 = [] \<or> r2 = [Call (other sender) FireFinishedCallback]))"
proof (cases "ts_rank (transitionState s) < ts_rank Cued")
  case False
  with assms have "fl = Continues s" by (auto simp: cueStep_def)
  with False show ?thesis by simp
next
  case below: True
  define s1 where "s1 = announcePreCue position a s"
  define ff where "ff = (\<lambda>s'. if \<not> isMain (deckOf s' sender) \<and> isTrackLoaded (deckOf s' (other sender))
                                      \<and> \<not> isPlaying (deckOf s' (other sender))
                                   then emit (Call (other sender) FireFinishedCallback) s' else s')"
  have ff: "deckOf (ff x) d' = deckOf x d'" "deckQueue (ff x) = deckQueue x"
    "forceFadingOut (ff x) = forceFadingOut x" "maxLeadingDuration (ff x) = maxLeadingDuration x"
    "fadingFactor (ff x) = fadingFactor x"
    "\<exists>r2. trace (ff x) = trace x @ r2 \<and> (r2 = [] \<or> r2 = [Call (other sender) FireFinishedCallback])"
    for x d'
    by (simp_all add: ff_def)
  have t1: "trace s1 = trace s @ (if transitionState s = Idle \<and> position > a then [CbPreCueNext] else [])"
    by (simp add: s1_def announcePreCue_trace)
  show ?thesis
  proof (cases "position > b")
    case False
    with assms below have fl: "fl = Continues (ff s1)"
      by (auto simp: cueStep_def Let_def s1_def ff_def)
    from ff(6) [of s1] obtain r2 where "trace (ff s1) = trace s1 @ r2"
      "r2 = [] \<or> r2 = [Call (other sender) FireFinishedCallback]" by blast
    with t1 below have "\<exists>r1 r2. trace (ff s1) =
           trace s @ (if ts_rank (transitionState s) < ts_rank Cued \<and> transitionState s = Idle
                         \<and> position > a then [CbPreCueNext] else []) @ r1 @ r2
         \<and> (\<forall>x \<in> set r1. isLoadCall x)
         \<and> (r2 = [] \<or> r2 = [Call (other sender) FireFinishedCallback])"
      by (intro exI [of _ "[]"] exI [of _ r2]) simp
    then show ?thesis
      by (simp add: fl ff s1_def announcePreCue_frame)
  next
    case True
    obtain ok s2 where l: "loadNextTrack (Some sender) False s1 = Inr (ok, s2)"
      using loadNextTrack_Some by blast
    note f = loadNextTrack_frame [OF l]
    from f [of sender] obtain r1 where r1: "trace s2 = trace s1 @ r1" "\<forall>x \<in> set r1. isLoadCall x"
      by blast
    define s3 where "s3 = s2\<lparr>transitionState := Cued, transitingDeck := Some sender\<rparr>"
    from assms below True l have fl: "fl = Returned s2 \<or> fl = Continues (ff s3)"
      by (auto simp: cueStep_def Let_def s1_def ff_def s3_def split: if_splits)
    from ff(6) [of s3] obtain r2 where r2: "trace (ff s3) = trace s3 @ r2"
      "r2 = [] \<or> r2 = [Call (other sender) FireFinishedCallback]" by blast
    have tr: "\<exists>r1 r2. trace (flowState fl) =
           trace s @ (if ts_rank (transitionState s) < ts_rank Cued \<and> transitionState s = Idle
                         \<and> position > a then [CbPreCueNext] else []) @ r1 @ r2
         \<and> (\<forall>x \<in> set r1. isLoadCall x)
         \<and> (r2 = [] \<or> r2 = [Call (other sender) FireFinishedCallback])"
    proof (cases "fl = Returned s2")
      case True
      with r1 t1 below show ?thesis
        by (intro exI [of _ r1] exI [of _ "[]"]) simp
    next
      case False
      with fl have "fl = Continues (ff s3)" by simp
      with r1 r2 t1 below show ?thesis
        by (intro exI [of _ r1] exI [of _ r2]) (simp add: s3_def)
    qed
    have st: "deckOf (flowState fl) sender = deckOf s sender"
      "volume (deckOf (flowState fl) d) = volume (deckOf s d)"
      "isMain (deckOf (flowState fl) d) = isMain (deckOf s d)"
      "deckQueue (flowState fl) = deckQueue s"
      "forceFadingOut (flowState fl) = forceFadingOut s"
      "maxLeadingDuration (flowState fl) = maxLeadingDuration s"
      "fadingFactor (flowState fl) = fadingFactor s"
      using fl f [of sender] f [of d]
      by (auto simp: ff s3_def s1_def announcePreCue_frame)
    from st tr show ?thesis by blast
  qed
qed




lemma cueStep_state:
  assumes "cueStep sender (other sender) position a b s = Inr fl"
  shows "case fl of
           Returned s2 \<Rightarrow> ts_rank (transitionState s) < ts_rank Cued
                          \<and> ts_rank (transitionState s2) < ts_rank Cued
         | Continues s1 \<Rightarrow>
             if ts_rank (transitionState s) < ts_rank Cued
             then transitionState s1 = Cued \<and> transitingDeck s1 = Some sender
                  \<or> ts_rank (transitionState s1) < ts_rank Cued \<and> transitingDeck s1 = transitingDeck s
             else s1 = s"
proof (cases "ts_rank (transitionState s) < ts_rank Cued")
  case False
  with assms show ?thesis by (auto simp: cueStep_def)
next
  case True
  define s1 where "s1 = announcePreCue position a s"
  obtain ok s2 where l: "loadNextTrack (Some sender) False s1 = Inr (ok, s2)"
    using loadNextTrack_Some by blast
  note f = loadNextTrack_frame [OF l, of sender]
  have r1: "ts_rank (transitionState s1) < ts_rank Cued" "transitingDeck s1 = transitingDeck s"
    using True by (simp_all add: s1_def announcePreCue_def)
  with f have r2: "ts_rank (transitionState s2) < ts_rank Cued" "transitingDeck s2 = transitingDeck s"
    by simp_all
  from assms True l r1 r2 show ?thesis
    by (auto simp: cueStep_def Let_def s1_def split: if_splits)
qed

lemma all_deck: "(\<forall>d. P d) = (P DeckA \<and> P DeckB)"
  by (metis deck_id.exhaust)

lemma engineInv_cong:
  assumes "\<And>d. isMain (deckOf s' d) = isMain (deckOf s d)"
    and "deckQueue s' = deckQueue s" and "transitionState s' = transitionState s"
    and "transitingDeck s' = transitingDeck s" and "forceFadingOut s' = forceFadingOut s"
  shows "engineInv s' = engineInv s"
  using assms by (simp add: engineInv_def getMainDeck_def)

lemma engineInv_new: "engineInv (newMedley c ml mt q)"
  by (simp add: engineInv_def getMainDeck_def newMedley_def updateFadingFactor_def newDeck_def
      deckOf_def split: deck_id.splits)

lemma engineInv_deckLoaded:
  assumes "engineInv s"
  shows "engineInv (deckLoaded sender s)"
proof (cases "deckQueue s")
  case Nil
  with assms show ?thesis
    by (auto simp: engineInv_def getMainDeck_def deckLoaded_def Let_def markAsMain_def)
next
  case (Cons m ms)
  with assms show ?thesis
    by (auto simp: engineInv_def getMainDeck_def deckLoaded_def Let_def markAsMain_def)
qed

lemma removeAll_other:
  "removeAll d q = [] \<or> hd (removeAll d q) = other d"
proof (cases "removeAll d q")
  case Nil
  then show ?thesis by simp
next
  case (Cons x xs)
  then have "x \<in> set (removeAll d q)" by simp
  then have "x \<noteq> d" by simp
  with deck_cases [of x d] Cons show ?thesis by simp
qed

lemma engineInv_dequeueDeck:
  assumes "engineInv s" and "transitingDeck s \<noteq> Some sender"
  shows "engineInv (dequeueDeck sender s)"
proof -
  let ?q = "removeAll sender (deckQueue s)"
  have hd_keep: "deckQueue s \<noteq> [] \<Longrightarrow> hd (deckQueue s) \<noteq> sender \<Longrightarrow>
      ?q \<noteq> [] \<and> hd ?q = hd (deckQueue s)"
    by (cases "deckQueue s") auto
  have main: "isMain (deckOf (dequeueDeck sender s) d) = (?q \<noteq> [] \<and> hd ?q = d)" for d
  proof (cases "?q = []")
    case True
    have "\<not> isMain (deckOf s (other sender))"
    proof
      assume "isMain (deckOf s (other sender))"
      with assms(1) have "deckQueue s \<noteq> [] \<and> hd (deckQueue s) = other sender"
        by (auto simp: engineInv_def getMainDeck_def split: if_splits)
      with hd_keep True show False by simp
    qed
    with True deck_cases [of d sender] show ?thesis
      by (auto simp: dequeueDeck_def Let_def markAsMain_def)
  next
    case False
    with removeAll_other [of sender "deckQueue s"] have "hd ?q = other sender" by simp
    with False deck_cases [of d sender] show ?thesis
      by (auto simp: dequeueDeck_def Let_def markAsMain_def)
  qed
  have q: "deckQueue (dequeueDeck sender s) = ?q"
    "transitionState (dequeueDeck sender s) = transitionState s"
    "transitingDeck (dequeueDeck sender s) = transitingDeck s"
    "forceFadingOut (dequeueDeck sender s) = forceFadingOut s"
    by (simp_all add: dequeueDeck_def Let_def markAsMain_def)
  have cyc: "ts_rank (transitionState s) < ts_rank Cued
      \<or> transitingDeck s \<noteq> None \<and> transitingDeck s = (if ?q = [] then None else Some (hd ?q))"
  proof (cases "ts_rank (transitionState s) < ts_rank Cued")
    case True
    then show ?thesis by simp
  next
    case False
    with assms(1) have t: "transitingDeck s \<noteq> None" "transitingDeck s = getMainDeck s"
      by (auto simp: engineInv_def)
    then have "deckQueue s \<noteq> []" "transitingDeck s = Some (hd (deckQueue s))"
      by (auto simp: getMainDeck_def split: if_splits)
    with assms(2) hd_keep t show ?thesis by auto
  qed
  have g: "getMainDeck (dequeueDeck sender s) = (if ?q = [] then None else Some (hd ?q))"
    by (simp add: getMainDeck_def q)
  have 1: "\<forall>d. isMain (deckOf (dequeueDeck sender s) d) = (getMainDeck (dequeueDeck sender s) = Some d)"
    using main g by auto
  have 2: "ts_rank (transitionState (dequeueDeck sender s)) < ts_rank Cued
      \<or> transitingDeck (dequeueDeck sender s) \<noteq> None
        \<and> transitingDeck (dequeueDeck sender s) = getMainDeck (dequeueDeck sender s)"
    using cyc g q by presburger
  have 3: "forceFadingOut (dequeueDeck sender s) \<ge> 0"
    using assms(1) q by (simp add: engineInv_def)
  from 1 2 3 show ?thesis unfolding engineInv_def by blast
qed

lemma transitingDeckUnloaded_result:
  assumes "transitingDeckUnloaded sender s = Inr s'"
  shows "transitionState s' = Idle \<and> transitingDeck s' = None
       \<and> deckQueue s' = deckQueue s \<and> (\<forall>d. isMain (deckOf s' d) = isMain (deckOf s d))
       \<and> (0 \<le> forceFadingOut s \<longrightarrow> 0 \<le> forceFadingOut s')
       \<and> (\<exists>r. trace s' = trace s @ r \<and> CbPreCueNext \<notin> set r)"
  using assms
  by (auto simp: transitingDeckUnloaded_def Let_def start_def deck_start_def
      split: if_splits option.splits)

lemma continuePlaying_frame:
  assumes "continuePlaying s = Inr s'"
  shows "transitionState s' = transitionState s \<and> transitingDeck s' = transitingDeck s
       \<and> deckQueue s' = deckQueue s \<and> isMain (deckOf s' d) = isMain (deckOf s d)
       \<and> forceFadingOut s' = forceFadingOut s
       \<and> (\<exists>r. trace s' = trace s @ r \<and> CbPreCueNext \<notin> set r)"
proof (cases "keepPlaying s \<and> \<not> isDeckPlaying s \<and> length (queue s) > 0")
  case False
  with assms have "s' = s \<or> s' = s\<lparr>keepPlaying := False\<rparr>"
    by (auto simp: continuePlaying_def Let_def split: if_splits)
  then show ?thesis by auto
next
  case True
  with assms obtain ok where l: "loadNextTrack None True (s\<lparr>keepPlaying := True\<rparr>) = Inr (ok, s')"
    by (auto simp: continuePlaying_def Let_def split: sum.splits)
  from loadNextTrack_frame [OF l, of d] obtain r where
    r: "trace s' = trace s @ r" "\<forall>a \<in> set r. isLoadCall a" by auto
  then have "CbPreCueNext \<notin> set r" by auto
  with loadNextTrack_frame [OF l, of d] r(1) show ?thesis by simp
qed

lemma engineInv_deckUnloaded:
  assumes "engineInv s" and "deckUnloaded sender s = Inr s'"
  shows "engineInv s'"
proof -
  obtain s1 where s1: "(if Some sender = transitingDeck s then transitingDeckUnloaded sender s else Inr s) = Inr s1"
    and cp: "continuePlaying (dequeueDeck sender s1) = Inr s'"
    using assms(2) by (auto simp: deckUnloaded_def split: sum.splits)
  have "engineInv s1 \<and> transitingDeck s1 \<noteq> Some sender"
  proof (cases "Some sender = transitingDeck s")
    case True
    with s1 have "transitingDeckUnloaded sender s = Inr s1" by simp
    from transitingDeckUnloaded_result [OF this] assms(1) show ?thesis
      by (simp add: engineInv_def getMainDeck_def)
  next
    case False
    with s1 assms(1) show ?thesis by auto
  qed
  then have "engineInv (dequeueDeck sender s1)"
    using engineInv_dequeueDeck by blast
  moreover have "engineInv s' = engineInv (dequeueDeck sender s1)"
    using continuePlaying_frame [OF cp] by (intro engineInv_cong) simp_all
  ultimately show ?thesis by simp
qed

lemma preCues_append:
  "trace s' = trace s @ r \<Longrightarrow> CbPreCueNext \<notin> set r \<Longrightarrow> preCues s' = preCues s"
  by (simp add: preCues_def)

lemma cueStep_idle:
  assumes "cueStep sender (other sender) position a b s = Inr fl"
    and "transitionState (flowState fl) = Idle"
  shows "transitionState s = Idle \<and> \<not> position > a"
proof (cases "ts_rank (transitionState s) < ts_rank Cued")
  case False
  with assms have "fl = Continues s" by (auto simp: cueStep_def)
  with assms(2) False show ?thesis by simp
next
  case True
  define s1 where "s1 = announcePreCue position a s"
  obtain ok s2 where l: "loadNextTrack (Some sender) False s1 = Inr (ok, s2)"
    using loadNextTrack_Some by blast
  note f = loadNextTrack_frame [OF l, of sender]
  have i1: "transitionState s1 = Idle \<Longrightarrow> transitionState s = Idle \<and> \<not> position > a"
    by (auto simp: s1_def announcePreCue_def split: if_splits)
  from assms True l f i1 show ?thesis
    by (auto simp: cueStep_def Let_def s1_def split: if_splits)
qed

lemma cueStep_preCues:
  assumes "cueStep sender (other sender) position a b s = Inr fl"
  shows "preCues (flowState fl) =
           preCues s + (if transitionState s = Idle \<and> position > a then 1 else 0)"
proof -
  from cueStep_frame [OF assms, of sender] obtain r1 r2 where
    t: "trace (flowState fl) =
           trace s @ (if ts_rank (transitionState s) < ts_rank Cued \<and> transitionState s = Idle
                         \<and> position > a then [CbPreCueNext] else []) @ r1 @ r2"
    and r: "\<forall>x \<in> set r1. isLoadCall x" "r2 = [] \<or> r2 = [Call (other sender) FireFinishedCallback]"
    by blast
  from r(1) have "CbPreCueNext \<notin> set r1" by auto
  then have "count_list r1 CbPreCueNext = 0" by simp
  moreover from r(2) have "count_list r2 CbPreCueNext = 0" by auto
  ultimately show ?thesis using t by (auto simp: preCues_def)
qed

lemma deckPosition_effect:
  assumes "deckPosition sender position s = Inr s'"
  shows "deckQueue s' = deckQueue s \<and> forceFadingOut s' = forceFadingOut s
       \<and> (isMain (deckOf s sender) \<longrightarrow> (\<forall>d. isMain (deckOf s' d) = isMain (deckOf s d)))
       \<and> (\<not> isMain (deckOf s sender) \<longrightarrow>
            transitionState s' = transitionState s \<and> transitingDeck s' = transitingDeck s
            \<and> isMain (deckOf s' (other sender)) = isMain (deckOf s (other sender))
            \<and> isMain (deckOf s' sender) = (deckQueue s \<noteq> [] \<and> hd (deckQueue s) = sender))
       \<and> (ts_rank (transitionState s) < ts_rank Cued
            \<and> \<not> ts_rank (transitionState s') < ts_rank Cued \<longrightarrow>
            isMain (deckOf s sender) \<and> transitingDeck s' = Some sender)
       \<and> (\<not> ts_rank (transitionState s) < ts_rank Cued \<longrightarrow>
            transitingDeck s' = transitingDeck s \<and> \<not> ts_rank (transitionState s') < ts_rank Cued)
       \<and> preCues s' = preCues s + (if firesPreCue (EvDeckPosition sender position) s then 1 else 0)
       \<and> (transitionState s' = Idle \<longrightarrow>
            transitionState s = Idle \<and> \<not> firesPreCue (EvDeckPosition sender position) s)"
proof (cases "isMain (deckOf s sender)")
  case False
  with assms have "s' = (if deckQueue s \<noteq> [] \<and> hd (deckQueue s) = sender
       then markAsMain sender True (emit (CbDeckPosition sender position) s)
       else emit (CbDeckPosition sender position) s)"
    by (auto simp: deckPosition_def Let_def split: if_splits)
  with False show ?thesis
    by (auto simp: markAsMain_def preCues_def)
next
  case True
  let ?n = "other sender"
  let ?pre = "getTransitionPreCuePosition (deckOf s sender)"
  let ?start = "getTransitionStartPosition (deckOf s sender)"
  let ?lead = "getLeadingDuration (deckOf s ?n)"
  define s0 where "s0 = emit (CbDeckPosition sender position) s"
  have p0: "preCues s0 = preCues s" "transitionState s0 = transitionState s"
    "transitingDeck s0 = transitingDeck s" "deckQueue s0 = deckQueue s"
    "forceFadingOut s0 = forceFadingOut s" "\<And>d. deckOf s0 d = deckOf s d"
    by (simp_all add: s0_def preCues_def)
  obtain fl where fl: "cueStep sender ?n position ?pre (getTransitionCuePosition (deckOf s sender)) s0 = Inr fl"
    using cueStep_total by blast
  note cs = cueStep_state [OF fl] and cf = cueStep_frame [OF fl]
    and cp = cueStep_preCues [OF fl] and ci = cueStep_idle [OF fl]
  define g where "g = (\<lambda>x. fadeOutStep sender position ?start (getTransitionEndPosition (deckOf s sender))
                          (transitStep ?n position ?start ?lead x))"
  have g: "deckQueue (g x) = deckQueue x" "forceFadingOut (g x) = forceFadingOut x"
    "isMain (deckOf (g x) d) = isMain (deckOf x d)" "transitingDeck (g x) = transitingDeck x"
    "transitionState (g x) = (if transitionState x = Cued \<and> position > ?start - ?lead
         \<and> isTrackLoaded (deckOf x ?n) then Transit else transitionState x)" for x d
    by (simp_all add: g_def fadeOutStep_frame transitStep_frame transitStep_state)
  have gp: "preCues (g x) = preCues x" for x
  proof -
    obtain r1 where 1: "trace (transitStep ?n position ?start ?lead x) = trace x @ r1"
      "CbPreCueNext \<notin> set r1" using transitStep_trace by blast
    obtain r2 where 2: "trace (g x) = trace (transitStep ?n position ?start ?lead x) @ r2"
      "CbPreCueNext \<notin> set r2" using fadeOutStep_trace unfolding g_def by blast
    from 1 2 show ?thesis by (simp add: preCues_def)
  qed
  have s': "s' = (case fl of Returned s1 \<Rightarrow> s1 | Continues s1 \<Rightarrow> g s1)"
    using assms True fl by (cases fl) (simp_all add: deckPosition_main s0_def g_def)
  show ?thesis
  proof (cases fl)
    case (Returned s2)
    with s' have e: "s' = s2" by simp
    have m: "\<forall>d. isMain (deckOf s2 d) = isMain (deckOf s d)"
      using cf Returned p0 by simp
    have q: "deckQueue s2 = deckQueue s" "forceFadingOut s2 = forceFadingOut s"
      using cf [of sender] Returned p0 by simp_all
    have pc: "preCues s2 = preCues s + (if firesPreCue (EvDeckPosition sender position) s then 1 else 0)"
      using cp Returned True p0 by simp
    have idle: "transitionState s2 = Idle \<longrightarrow>
            transitionState s = Idle \<and> \<not> firesPreCue (EvDeckPosition sender position) s"
      using ci Returned p0 by auto
    have below: "ts_rank (transitionState s) < ts_rank Cued" "ts_rank (transitionState s2) < ts_rank Cued"
      using cs Returned p0 by simp_all
    from m q pc idle below True show ?thesis unfolding e by blast
  next
    case (Continues s1)
    with s' have e: "s' = g s1" by simp
    have m: "\<forall>d. isMain (deckOf (g s1) d) = isMain (deckOf s d)"
      using cf Continues g(3) p0 by simp
    have q: "deckQueue (g s1) = deckQueue s" "forceFadingOut (g s1) = forceFadingOut s"
      using cf [of sender] Continues g p0 by simp_all
    have pc: "preCues (g s1) = preCues s + (if firesPreCue (EvDeckPosition sender position) s then 1 else 0)"
      using cp Continues gp True p0 by simp
    have idle: "transitionState (g s1) = Idle \<longrightarrow>
            transitionState s = Idle \<and> \<not> firesPreCue (EvDeckPosition sender position) s"
      using ci Continues g(5) [of s1] p0 by (auto split: if_splits)
    have up: "ts_rank (transitionState s) < ts_rank Cued
            \<and> \<not> ts_rank (transitionState (g s1)) < ts_rank Cued \<longrightarrow> transitingDeck (g s1) = Some sender"
      using cs Continues g(4,5) [of s1] p0 by (auto split: if_splits)
    have keep: "\<not> ts_rank (transitionState s) < ts_rank Cued \<longrightarrow>
            transitingDeck (g s1) = transitingDeck s \<and> \<not> ts_rank (transitionState (g s1)) < ts_rank Cued"
      using cs Continues g(4,5) [of s1] p0 by (auto split: if_splits)
    from m q pc idle up keep True show ?thesis unfolding e by blast
  qed
qed

lemmas deckPosition_effects =
  deckPosition_effect [THEN conjunct1]
  deckPosition_effect [THEN conjunct2, THEN conjunct1]
  deckPosition_effect [THEN conjunct2, THEN conjunct2, THEN conjunct1]
  deckPosition_effect [THEN conjunct2, THEN conjunct2, THEN conjunct2, THEN conjunct1]
  deckPosition_effect [THEN conjunct2, THEN conjunct2, THEN conjunct2, THEN conjunct2, THEN conjunct1]
  deckPosition_effect [THEN conjunct2, THEN conjunct2, THEN conjunct2, THEN conjunct2, THEN conjunct2, THEN conjunct1]
  deckPosition_effect [THEN conjunct2, THEN conjunct2, THEN conjunct2, THEN conjunct2, THEN conjunct2, THEN conjunct2, THEN conjunct1]
  deckPosition_effect [THEN conjunct2, THEN conjunct2, THEN conjunct2, THEN conjunct2, THEN conjunct2, THEN conjunct2, THEN conjunct2]

lemma engineInv_deckPosition:
  assumes "engineInv s" and "deckPosition sender position s = Inr s'"
  shows "engineInv s'"
proof -
  note e = deckPosition_effects [OF assms(2)]
  have inv: "\<And>d. isMain (deckOf s d) = (getMainDeck s = Some d)" "forceFadingOut s \<ge> 0"
    "ts_rank (transitionState s) < ts_rank Cued
      \<or> transitingDeck s \<noteq> None \<and> transitingDeck s = getMainDeck s"
    using assms(1) unfolding engineInv_def by blast+
  have main: "isMain (deckOf s' d) = isMain (deckOf s d)" for d
  proof (cases "isMain (deckOf s sender)")
    case True
    with e(3) show ?thesis by simp
  next
    case False
    with inv(1) [of sender] have nh: "\<not> (deckQueue s \<noteq> [] \<and> hd (deckQueue s) = sender)"
      by (auto simp: getMainDeck_def)
    from e(4) False have a: "isMain (deckOf s' (other sender)) = isMain (deckOf s (other sender))"
      and b: "isMain (deckOf s' sender) = (deckQueue s \<noteq> [] \<and> hd (deckQueue s) = sender)"
      by simp_all
    from deck_cases [of d sender] a b nh False show ?thesis by auto
  qed
  have g: "getMainDeck s' = getMainDeck s" using e(1) by (simp add: getMainDeck_def)
  have cyc: "ts_rank (transitionState s') < ts_rank Cued
      \<or> transitingDeck s' \<noteq> None \<and> transitingDeck s' = getMainDeck s"
  proof (cases "ts_rank (transitionState s) < ts_rank Cued")
    case False
    with e(6) have "transitingDeck s' = transitingDeck s" by simp
    with False inv(3) show ?thesis by auto
  next
    case True
    show ?thesis
    proof (cases "ts_rank (transitionState s') < ts_rank Cued")
      case False
      with True e(5) have "isMain (deckOf s sender)" "transitingDeck s' = Some sender" by simp_all
      with inv(1) [of sender] show ?thesis by simp
    qed simp
  qed
  from main g cyc inv e(2) show ?thesis unfolding engineInv_def by simp
qed

lemma fadeOutMainDeck_effect:
  "deckQueue (fadeOutMainDeck s) = deckQueue s
   \<and> (\<forall>d. isMain (deckOf (fadeOutMainDeck s) d) = isMain (deckOf s d))
   \<and> transitingDeck (fadeOutMainDeck s) = transitingDeck s
   \<and> transitionState (fadeOutMainDeck s)
        = (if transitionState s = Transit \<and> getMainDeck s \<noteq> None then Idle else transitionState s)
   \<and> forceFadingOut (fadeOutMainDeck s) \<ge> forceFadingOut s
   \<and> preCues (fadeOutMainDeck s) = preCues s"
  by (cases "getMainDeck s")
    (auto simp: fadeOutMainDeck_def Let_def unloadTrack_def deck_unloadTrack_def setPause_def
      preCues_def getMainDeck_def split: option.splits)

lemma deckUnloaded_effect:
  assumes "deckUnloaded sender s = Inr s'"
  shows "preCues s' = preCues s
       \<and> transitionState s' = (if transitingDeck s = Some sender then Idle else transitionState s)"
proof -
  obtain s1 where s1: "(if Some sender = transitingDeck s then transitingDeckUnloaded sender s else Inr s) = Inr s1"
    and cp: "continuePlaying (dequeueDeck sender s1) = Inr s'"
    using assms by (auto simp: deckUnloaded_def split: sum.splits)
  have 1: "preCues s1 = preCues s
       \<and> transitionState s1 = (if transitingDeck s = Some sender then Idle else transitionState s)"
  proof (cases "Some sender = transitingDeck s")
    case True
    with s1 have "transitingDeckUnloaded sender s = Inr s1" by simp
    from transitingDeckUnloaded_result [OF this] True show ?thesis
      by (auto simp: preCues_def)
  next
    case False
    with s1 show ?thesis by auto
  qed
  have 2: "preCues (dequeueDeck sender s1) = preCues s1"
    "transitionState (dequeueDeck sender s1) = transitionState s1"
    by (simp_all add: dequeueDeck_def Let_def markAsMain_def preCues_def)
  from continuePlaying_frame [OF cp, of sender]
  have 3: "preCues s' = preCues (dequeueDeck sender s1)"
    "transitionState s' = transitionState (dequeueDeck sender s1)"
    by (auto simp: preCues_def)
  from 1 2 3 show ?thesis by simp
qed

lemma play_frame:
  assumes "play s = Inr s'"
  shows "(\<forall>d. isMain (deckOf s' d) = isMain (deckOf s d)) \<and> deckQueue s' = deckQueue s
       \<and> transitionState s' = transitionState s \<and> transitingDeck s' = transitingDeck s
       \<and> forceFadingOut s' = forceFadingOut s \<and> preCues s' = preCues s"
proof (cases "isDeckPlaying s")
  case True
  with assms show ?thesis by (auto simp: play_def setPause_def preCues_def)
next
  case False
  with assms obtain ok s1 where l: "loadNextTrack None True s = Inr (ok, s1)"
    and s': "s' = setPause False (s1\<lparr>keepPlaying := True\<rparr>)"
    by (auto simp: play_def split: sum.splits)
  from loadNextTrack_frame [OF l, of DeckA] obtain r where
    r: "trace s1 = trace s @ r" "\<forall>a \<in> set r. isLoadCall a" by auto
  then have "CbPreCueNext \<notin> set r" by auto
  with r(1) have "preCues s1 = preCues s" by (simp add: preCues_def)
  with loadNextTrack_frame [OF l] show ?thesis
    by (simp add: s' setPause_def preCues_def)
qed

lemma stop_frame:
  "(\<forall>d. isMain (deckOf (stop s) d) = isMain (deckOf s d)) \<and> deckQueue (stop s) = deckQueue s
   \<and> transitionState (stop s) = transitionState s \<and> transitingDeck (stop s) = transitingDeck s
   \<and> forceFadingOut (stop s) = forceFadingOut s \<and> preCues (stop s) = preCues s"
  by (simp add: stop_def unloadTrack_def stop_deck_def deck_unloadTrack_def deck_stop_def
      preCues_def all_deck)

lemma quiet_step:
  assumes "engineInv s"
    and "\<And>d. isMain (deckOf s' d) = isMain (deckOf s d)"
    and "deckQueue s' = deckQueue s" and "transitionState s' = transitionState s"
    and "transitingDeck s' = transitingDeck s" and "forceFadingOut s' = forceFadingOut s"
    and "preCues s' = preCues s" and "\<not> firesPreCue e s"
  shows "engineInv s'
       \<and> preCues s' = preCues s + (if firesPreCue e s then 1 else 0)
       \<and> (firesPreCue e s \<longrightarrow> transitionState s' \<noteq> Idle)
       \<and> (transitionState s \<noteq> Idle \<and> transitionState s' = Idle \<longrightarrow> endsTransition e s)"
proof -
  have "engineInv s' = engineInv s"
    using assms(2-6) by (rule engineInv_cong)
  with assms show ?thesis by simp
qed

lemma step_effect:
  assumes "engineInv s" and "step e s = Inr s'"
  shows "engineInv s'
       \<and> preCues s' = preCues s + (if firesPreCue e s then 1 else 0)
       \<and> (firesPreCue e s \<longrightarrow> transitionState s' \<noteq> Idle)
       \<and> (transitionState s \<noteq> Idle \<and> transitionState s' = Idle \<longrightarrow> endsTransition e s)"
proof (cases e)
  case (EvDeckStarted d)
  with assms(2) have s': "s' = deckStarted d s" by simp
  show ?thesis
    by (rule quiet_step [OF assms(1)]) (simp_all add: s' EvDeckStarted deckStarted_def preCues_def)
next
  case (EvDeckFinished d)
  with assms(2) have s': "s' = deckFinished d s" by simp
  show ?thesis
    by (rule quiet_step [OF assms(1)]) (simp_all add: s' EvDeckFinished deckFinished_def preCues_def)
next
  case (EvDeckLoaded d)
  with assms(2) have s': "s' = deckLoaded d s" by simp
  have "transitionState s' = transitionState s" "preCues s' = preCues s"
    by (simp_all add: s' deckLoaded_def Let_def markAsMain_def preCues_def)
  with engineInv_deckLoaded [OF assms(1), of d] s' EvDeckLoaded show ?thesis by simp
next
  case (EvDeckUnloaded d)
  with assms(2) have du: "deckUnloaded d s = Inr s'" by simp
  from engineInv_deckUnloaded [OF assms(1) du] deckUnloaded_effect [OF du] EvDeckUnloaded
  show ?thesis by (simp split: if_splits)
next
  case (EvDeckPosition d p)
  with assms have dp: "deckPosition d p s = Inr s'" by simp
  from deckPosition_effects(7,8) [OF dp] engineInv_deckPosition [OF assms(1) dp] EvDeckPosition
  show ?thesis by auto
next
  case EvPlay
  with assms have p: "play s = Inr s'" by simp
  from play_frame [OF p] show ?thesis
    by (intro quiet_step [OF assms(1)]) (simp_all add: EvPlay)
next
  case EvStop
  with assms have s': "s' = stop s" by simp
  from stop_frame [of s] show ?thesis
    by (intro quiet_step [OF assms(1)]) (simp_all add: EvStop s')
next
  case EvFadeOutMainDeck
  with assms have s': "s' = fadeOutMainDeck s" by simp
  note f = fadeOutMainDeck_effect [of s]
  have inv: "\<And>d. isMain (deckOf s d) = (getMainDeck s = Some d)" "forceFadingOut s \<ge> 0"
    "ts_rank (transitionState s) < ts_rank Cued
      \<or> transitingDeck s \<noteq> None \<and> transitingDeck s = getMainDeck s"
    using assms(1) unfolding engineInv_def by blast+
  from f have g: "getMainDeck s' = getMainDeck s" by (simp add: getMainDeck_def s')
  have 1: "\<forall>d. isMain (deckOf s' d) = (getMainDeck s' = Some d)"
    using f g inv(1) by (simp add: s')
  have 2: "ts_rank (transitionState s') < ts_rank Cued
      \<or> transitingDeck s' \<noteq> None \<and> transitingDeck s' = getMainDeck s'"
    using f g inv(3) by (auto simp: s' split: if_splits)
  have 3: "forceFadingOut s' \<ge> 0" using f inv(2) by (simp add: s')
  have 4: "transitionState s \<noteq> Idle \<and> transitionState s' = Idle \<longrightarrow>
      transitionState s = Transit \<and> transitingDeck s \<noteq> None \<and> getMainDeck s = transitingDeck s"
    using f inv(3) by (auto simp: s' split: if_splits)
  have 5: "preCues s' = preCues s" using f by (simp add: s')
  from 1 2 3 have "engineInv s'" unfolding engineInv_def by blast
  with 4 5 EvFadeOutMainDeck show ?thesis by simp
next
  case EvTogglePause
  with assms(2) have s': "s' = s\<lparr>mix := snd (togglePause (mix s))\<rparr>" by simp
  show ?thesis
    by (rule quiet_step [OF assms(1)]) (simp_all add: s' EvTogglePause preCues_def)
next
  case (EvSetFadingCurve c)
  with assms(2) have s': "s' = setFadingCurve c s" by simp
  show ?thesis
    by (rule quiet_step [OF assms(1)])
      (simp_all add: s' EvSetFadingCurve setFadingCurve_def updateFadingFactor_def preCues_def)
next
  case (EvSetMaxTransitionTime v)
  with assms(2) have s': "s' = setMaxTransitionTime v s" by simp
  show ?thesis
    by (rule quiet_step [OF assms(1)])
      (simp_all add: s' EvSetMaxTransitionTime setMaxTransitionTime_def preCues_def)
next
  case (EvSetMaxLeadingDuration v)
  with assms(2) have s': "s' = s\<lparr>maxLeadingDuration := v\<rparr>" by simp
  show ?thesis
    by (rule quiet_step [OF assms(1)]) (simp_all add: s' EvSetMaxLeadingDuration preCues_def)
next
  case (EvSetPositionInSeconds t)
  with assms(2) have s': "s' = setPositionInSeconds t s" by simp
  show ?thesis
    by (rule quiet_step [OF assms(1)])
      (simp_all add: s' EvSetPositionInSeconds setPositionInSeconds_def setPosition_def preCues_def
        split: option.splits)
next
  case (EvSetPositionFractional f)
  with assms(2) have s': "s' = setPositionFractional f s" by simp
  show ?thesis
    by (rule quiet_step [OF assms(1)])
      (simp_all add: s' EvSetPositionFractional setPositionFractional_def preCues_def
        split: option.splits)
next
  case (EnvDeck d dk)
  with assms(2) have s': "s' = updDeck d (\<lambda>old. dk\<lparr>isMain := isMain old\<rparr>) s" by simp
  show ?thesis
    by (rule quiet_step [OF assms(1)]) (simp_all add: s' EnvDeck preCues_def)
next
  case (EnvQueue q)
  with assms(2) have s': "s' = s\<lparr>queue := q\<rparr>" by simp
  show ?thesis
    by (rule quiet_step [OF assms(1)]) (simp_all add: s' EnvQueue preCues_def)
qed

lemma firesPreCue_idle: "firesPreCue e s \<Longrightarrow> transitionState s = Idle"
  by (cases e) simp_all

lemma run_effect:
  "engineInv s \<Longrightarrow> run evs s = Inr s' \<Longrightarrow>
   engineInv s'
   \<and> preCues s' + (if transitionState s' = Idle then 1 else 0)
       \<le> preCues s + (if transitionState s = Idle then 1 else 0) + cyclesEnded evs s"
proof (induction evs arbitrary: s)
  case Nil
  then show ?case by simp
next
  case (Cons e es)
  from Cons.prems(2) obtain s1 where s1: "step e s = Inr s1" and r: "run es s1 = Inr s'"
    by (auto split: sum.splits)
  note se = step_effect [OF Cons.prems(1) s1]
  from se have i1: "engineInv s1" by simp
  note ih = Cons.IH [OF i1 r]
  have c: "cyclesEnded (e # es) s
      = (if transitionState s \<noteq> Idle \<and> transitionState s1 = Idle then 1 else 0) + cyclesEnded es s1"
    using s1 by simp
  have "preCues s1 + (if transitionState s1 = Idle then 1 else 0)
      \<le> preCues s + (if transitionState s = Idle then 1 else 0)
          + (if transitionState s \<noteq> Idle \<and> transitionState s1 = Idle then 1 else 0)"
    using se firesPreCue_idle [of e s] by (auto split: if_splits)
  with ih c show ?case by linarith
qed

lemma deckUnloaded_queue:
  assumes "deckUnloaded sender s = Inr s'"
  shows "deckQueue s' = removeAll sender (deckQueue s)"
proof -
  obtain s1 where s1: "(if Some sender = transitingDeck s then transitingDeckUnloaded sender s else Inr s) = Inr s1"
    and cp: "continuePlaying (dequeueDeck sender s1) = Inr s'"
    using assms by (auto simp: deckUnloaded_def split: sum.splits)
  have "deckQueue s1 = deckQueue s"
  proof (cases "Some sender = transitingDeck s")
    case True
    with s1 have "transitingDeckUnloaded sender s = Inr s1" by simp
    from transitingDeckUnloaded_result [OF this] show ?thesis by simp
  next
    case False
    with s1 show ?thesis by simp
  qed
  moreover have "deckQueue (dequeueDeck sender s1) = removeAll sender (deckQueue s1)"
    by (simp add: dequeueDeck_def Let_def markAsMain_def)
  moreover from continuePlaying_frame [OF cp, of sender]
  have "deckQueue s' = deckQueue (dequeueDeck sender s1)" by simp
  ultimately show ?thesis by simp
qed

lemma run_engineInv: "run evs (newMedley c ml mt q) = Inr s \<Longrightarrow> engineInv s"
  using run_effect [OF engineInv_new] by blast

lemma engineInv_main:
  assumes "engineInv s"
  shows "(\<forall>d. isMain (deckOf s d) = (getMainDeck s = Some d))
       \<and> ((\<exists>!d. isMain (deckOf s d)) = (deckQueue s \<noteq> []))"
proof -
  from assms have m: "\<And>d. isMain (deckOf s d) = (getMainDeck s = Some d)"
    unfolding engineInv_def by blast
  have "(\<exists>!d. getMainDeck s = Some d) = (deckQueue s \<noteq> [])"
    by (auto simp: getMainDeck_def)
  with m show ?thesis by simp
qed

lemma round_choice_near:
  fixes f :: int and d :: real
  assumes "0 \<le> d" and "d < 1"
  shows "\<bar>of_int (if d < 1 / 2 then f else if 1 / 2 < d then f + 1
                     else if even f then f else f + 1) - (of_int f + d)\<bar> \<le> 1 / 2"
  using assms by (auto simp: abs_if)

lemma round_half_even_near: "\<bar>of_int (round_half_even y) - y\<bar> \<le> 1 / 2"
proof -
  have y: "y = of_int \<lfloor>y\<rfloor> + (y - of_int \<lfloor>y\<rfloor>)" by simp
  have d: "0 \<le> y - of_int \<lfloor>y\<rfloor>" "y - of_int \<lfloor>y\<rfloor> < 1" by linarith+
  from round_choice_near [OF d, of "\<lfloor>y\<rfloor>"] show ?thesis
    by (simp add: round_half_even_def Let_def)
qed

lemma round_half_even_small:
  assumes "0 \<le> y" and "y \<le> 1 / 2"
  shows "round_half_even y = 0"
proof -
  have "\<lfloor>y\<rfloor> = 0" using assms by (simp add: floor_eq_iff)
  with assms show ?thesis by (simp add: round_half_even_def)
qed

lemma exp_up_bounds:
  "1 \<le> x \<Longrightarrow> x < 2 ^ n \<Longrightarrow>
   0 \<le> exp_up n x \<and> 2 powi (exp_up n x) \<le> x \<and> x < 2 powi (exp_up n x + 1)"
proof (induction n arbitrary: x)
  case 0
  then show ?case by simp
next
  case (Suc n)
  show ?case
  proof (cases "x < 2")
    case True
    with Suc.prems show ?thesis by simp
  next
    case False
    with Suc.prems have "1 \<le> x / 2" "x / 2 < 2 ^ n" by simp_all
    from Suc.IH [OF this] have ih: "0 \<le> exp_up n (x / 2)"
      "2 powi (exp_up n (x / 2)) \<le> x / 2" "x / 2 < 2 powi (exp_up n (x / 2) + 1)"
      by simp_all
    have a: "(2::real) powi (1 + exp_up n (x / 2)) = 2 * 2 powi (exp_up n (x / 2))"
      by (simp add: power_int_add)
    have b: "(2::real) powi (1 + exp_up n (x / 2) + 1) = 2 * 2 powi (exp_up n (x / 2) + 1)"
      by (simp add: power_int_add)
    from False ih a b show ?thesis by simp
  qed
qed

lemma exp_up_first: "x < 2 \<Longrightarrow> exp_up 128 x = 0"
proof -
  assume x: "x < 2"
  have e: "(128::nat) = Suc 127" by simp
  show ?thesis unfolding e exp_up.simps using x by simp
qed

lemma exp_down_small:
  "0 < x \<Longrightarrow> x < 1 / 2 ^ n \<Longrightarrow> exp_down n x = - int n"
proof (induction n arbitrary: x)
  case 0
  then show ?case by simp
next
  case (Suc n)
  from Suc.prems have "x < 1 / 2 ^ n / 2" by simp
  then have 2: "2 * x < 1 / 2 ^ n" by simp
  have "(1::real) / 2 ^ n \<le> 1" by simp
  with 2 have "x < 1" by linarith
  with Suc.IH [OF _ 2] Suc.prems(1) show ?case by simp
qed

lemma float32_underflow:
  assumes "0 \<le> x" and "x \<le> 1 / 2 ^ 150"
  shows "float32 x = Fin 0"
proof (cases "x = 0")
  case True
  then show ?thesis by (simp add: float32_def)
next
  case False
  with assms have pos: "0 < x" by simp
  have "(1::real) / 2 ^ 150 < 1 / 2 ^ 126" by simp
  with assms have small: "x < 1 / 2 ^ 126" by linarith
  have "(1::real) / 2 ^ 126 < 1" by simp
  with small have "x < 1" by linarith
  with exp_down_small [OF pos small] have e: "float_exponent x = - 126"
    by (simp add: float_exponent_def)
  define ulp :: real where "ulp = 2 powi (- 126 - 23)"
  have u: "ulp = 1 / 2 ^ 149"
    by (simp add: ulp_def power_int_minus field_simps)
  have "x / ulp = x * 2 ^ 149" by (simp add: u)
  moreover have "x * 2 ^ 149 \<le> 1 / 2 ^ 150 * 2 ^ 149"
    using assms(2) by (intro mult_right_mono) simp_all
  ultimately have "x / ulp \<le> 1 / 2" by simp
  moreover have "0 \<le> x / ulp" using pos by (simp add: u)
  ultimately have r0: "round_half_even (x / ulp) = 0"
    by (rule round_half_even_small [rotated])
  have "float32_pos x =
      (if 2 powi 128 \<le> of_int (round_half_even (x / ulp)) * ulp then PInf
       else Fin (of_int (round_half_even (x / ulp)) * ulp))"
    by (simp only: float32_pos_def Let_def e ulp_def)
  then have "float32_pos x = Fin 0" unfolding r0 by simp
  with pos show ?thesis by (simp add: float32_def)
qed

lemma float32_normal:
  assumes "1 \<le> x" and "x < 2 ^ 128"
  shows "\<exists>e. 0 \<le> e \<and> 2 powi e \<le> x \<and> x < 2 powi (e + 1)
         \<and> float32_pos x =
             (if (2::real) powi 128 \<le> of_int (round_half_even (x / 2 powi (e - 23))) * 2 powi (e - 23)
              then PInf
              else Fin (of_int (round_half_even (x / 2 powi (e - 23))) * 2 powi (e - 23)))"
  using exp_up_bounds [OF assms] assms(1)
  by (intro exI [of _ "exp_up 128 x"]) (simp add: float32_pos_def float_exponent_def Let_def)

lemma float32_error:
  assumes "1 \<le> x" and "x \<le> 1000"
  shows "\<exists>r. float32 x = Fin r \<and> \<bar>r - x\<bar> \<le> x / 2 ^ 24"
proof -
  have "x < 2 ^ 128" using assms(2) by (rule le_less_trans) simp
  from float32_normal [OF assms(1) this] obtain e where e: "0 \<le> e" "2 powi e \<le> x"
    and f: "float32_pos x =
             (if (2::real) powi 128 \<le> of_int (round_half_even (x / 2 powi (e - 23))) * 2 powi (e - 23)
              then PInf
              else Fin (of_int (round_half_even (x / 2 powi (e - 23))) * 2 powi (e - 23)))"
    by blast
  define ulp :: real where "ulp = 2 powi (e - 23)"
  define a :: real where "a = of_int (round_half_even (x / ulp))"
  define r where "r = a * ulp"
  have up: "0 < ulp" by (simp add: ulp_def)
  have ue: "ulp = 2 powi e / 2 ^ 23"
    by (simp add: ulp_def power_int_diff)
  have n: "\<bar>a - x / ulp\<bar> \<le> 1 / 2"
    unfolding a_def by (rule round_half_even_near)
  have "(a - x / ulp) * ulp = r - x"
    using up by (simp add: r_def left_diff_distrib)
  then have "\<bar>r - x\<bar> = \<bar>a - x / ulp\<bar> * \<bar>ulp\<bar>"
    by (simp add: abs_mult [symmetric])
  also have "\<dots> = \<bar>a - x / ulp\<bar> * ulp" using up by simp
  also have "\<dots> \<le> 1 / 2 * ulp" using n up by (intro mult_right_mono) simp_all
  finally have near: "\<bar>r - x\<bar> \<le> ulp / 2" by simp
  have "ulp / 2 = 2 powi e / 2 ^ 24" by (simp add: ue)
  also have "\<dots> \<le> x / 2 ^ 24" using e(2) by (simp add: divide_right_mono)
  finally have bound: "ulp / 2 \<le> x / 2 ^ 24" .
  have "x / 2 ^ 24 \<le> x" using assms(1) by (simp add: field_simps)
  with near bound have "r \<le> x + x" by linarith
  also have "\<dots> \<le> 1000 + 1000" using assms by simp
  also have "\<dots> < (2::real) powi 128" by simp
  finally have "\<not> 2 powi 128 \<le> r" by simp
  with f have "float32_pos x = Fin r" by (simp add: r_def a_def ulp_def)
  moreover have "\<bar>r - x\<bar> \<le> x / 2 ^ 24" using near bound by linarith
  ultimately show ?thesis using assms(1) by (auto simp: float32_def)
qed

lemma float32_one_two:
  assumes "1 \<le> x" and "x < 2"
  shows "float32 x = Fin (of_int (round_half_even (x * 2 ^ 23)) / 2 ^ 23)"
proof -
  have e: "float_exponent x = 0" using assms by (simp add: float_exponent_def exp_up_first)
  have u: "(2::real) powi (0 - 23) = 1 / 2 ^ 23" by (simp add: power_int_minus field_simps)
  have "\<bar>of_int (round_half_even (x * 2 ^ 23)) - x * 2 ^ 23\<bar> \<le> 1 / 2"
    by (rule round_half_even_near)
  then have "of_int (round_half_even (x * 2 ^ 23)) \<le> x * 2 ^ 23 + 1 / 2" by linarith
  also have "\<dots> \<le> 2 * 2 ^ 23 + 1 / 2" using assms by simp
  finally have "of_int (round_half_even (x * 2 ^ 23)) / 2 ^ 23 < (2::real) powi 128" by simp
  with assms e u show ?thesis
    by (simp add: float32_def float32_pos_def Let_def)
qed

lemma float32_example: "float32 (2000 / 1001) = Fin (2095057 / 2 ^ 20)"
  by (simp add: float32_one_two round_half_even_def Let_def)

lemma float32_1: "float32 1 = Fin 1"
  by (simp add: float32_one_two round_half_even_def Let_def)

lemma transitStep_volume:
  "transitionState (transitStep n position a l s) = Transit \<Longrightarrow>
   volume (deckOf (transitStep n position a l s) n) =
     (if l \<ge> maxLeadingDuration s \<and> position > a - l
      then narrow (pow (jlimit_x 0.25 1 (fdiv (position - (a - l)) l)) (fadingFactor s))
      else if transitionState s = Transit then volume (deckOf s n) else Fin 1)"
  by (auto simp: transitStep_def Let_def setVolume_def setPosition_def start_def deck_start_def
      split: if_splits)

lemma pow_pos: "0 < b \<Longrightarrow> pow (Fin b) (Fin e) = Fin (b powr e)"
  by simp

lemma jlimit_x_Fin: "lo \<le> hi \<Longrightarrow> jlimit_x lo hi (Fin q) = Fin (max lo (min hi q))"
  by (auto simp: jlimit_x_def max_def min_def)

lemma fade_in_formula:
  assumes "l \<noteq> 0"
  shows "pow (jlimit_x 0.25 1 (fdiv x l)) (Fin e) = Fin ((max 0.25 (min 1 (x / l))) powr e)"
proof -
  have "jlimit_x 0.25 1 (fdiv x l) = Fin (max 0.25 (min 1 (x / l)))"
    using assms jlimit_x_Fin [of "0.25" 1 "x / l"] by (simp add: fdiv_def)
  moreover have "(0::real) < max 0.25 (min 1 (x / l))"
    by (rule less_le_trans [of _ "0.25"]) (simp, rule max.cobounded1)
  ultimately show ?thesis by (simp only: pow_pos)
qed

lemma round_half_even_int: "round_half_even (of_int k) = k"
  by (simp add: round_half_even_def)

lemma exp_down_first: "1 / 2 \<le> x \<Longrightarrow> x < 1 \<Longrightarrow> exp_down 126 x = - 1"
proof -
  assume x: "1 / 2 \<le> x" "x < 1"
  have e: "(126::nat) = Suc (Suc 124)" by simp
  show ?thesis unfolding e exp_down.simps using x by simp
qed

lemma float32_half: "float32 (1 / 2) = Fin (1 / 2)"
proof -
  have e: "float_exponent (1 / 2) = - 1"
    by (simp add: float_exponent_def exp_down_first)
  have u: "(2::real) powi (- 1 - 23) = 1 / 2 ^ 24" by (simp add: power_int_minus field_simps)
  have "(1 / 2) / (1 / 2 ^ 24) = (of_int (2 ^ 23) :: real)" by simp
  then have "round_half_even ((1 / 2) / (1 / 2 ^ 24)) = 2 ^ 23"
    by (simp only: round_half_even_int)
  then show ?thesis
    by (simp add: float32_def float32_pos_def Let_def e u)
qed

lemma float32_tiny: "float32 ((1 / 4) powr 1000) = Fin 0"
proof -
  have p: "((1::real) / 4) powr 1000 = 1 / 4 ^ 1000"
    by (simp add: powr_numeral power_divide)
  have "(4::real) ^ 1000 = 2 ^ 2000"
  proof -
    have "(4::real) = 2 ^ 2" by simp
    then have "(4::real) ^ 1000 = (2 ^ 2) ^ 1000" by simp
    also have "\<dots> = 2 ^ (2 * 1000)" by (rule power_mult [symmetric])
    finally show ?thesis by simp
  qed
  then have q: "((1::real) / 4) powr 1000 = 1 / 2 ^ 2000" using p by simp
  have "(1::real) / 2 ^ 2000 \<le> 1 / 2 ^ 150"
    by (intro divide_left_mono power_increasing) simp_all
  with q show ?thesis by (intro float32_underflow) simp_all
qed

lemma exp_up_1000: "exp_up 128 1000 = 9"
proof -
  have e: "(128::nat) = Suc (Suc (Suc (Suc (Suc (Suc (Suc (Suc (Suc (Suc 118)))))))))" by simp
  show ?thesis unfolding e exp_up.simps by simp
qed

lemma float32_1000: "float32 1000 = Fin 1000"
proof -
  have e: "float_exponent 1000 = 9"
    by (simp add: float_exponent_def exp_up_1000)
  have u: "(2::real) powi (9 - 23) = 1 / 2 ^ 14" by (simp add: power_int_minus field_simps)
  have "1000 / (1 / 2 ^ 14) = (of_int (1000 * 2 ^ 14) :: real)" by simp
  then have "round_half_even (1000 / (1 / 2 ^ 14)) = 1000 * 2 ^ 14"
    by (simp only: round_half_even_int)
  then show ?thesis
    by (simp add: float32_def float32_pos_def Let_def e u)
qed

lemma steepFadeExample_eq:
  "steepFadeExample = (exampleMedley Cued 0)\<lparr>fadingCurve := 100, fadingFactor := Fin 1000\<rparr>"
  by (simp add: setFadingCurve_def updateFadingFactor_def jlimit_def steepFadeExample_def
      fdiv_def float32_1000 Let_def)


lemma deckUnloaded_total:
  assumes "\<not> isTrackLoaded (deckOf s sender)"
  shows "\<exists>s'. deckUnloaded sender s = Inr s'"
proof -
  have "\<exists>s1. (if Some sender = transitingDeck s then transitingDeckUnloaded sender s else Inr s) = Inr s1
        \<and> isTrackLoaded (deckOf s1 sender) = isTrackLoaded (deckOf s sender)"
  proof (cases "Some sender = transitingDeck s")
    case False
    then show ?thesis by simp
  next
    case True
    then have t: "transitingDeck s = Some sender" by simp
    show ?thesis
      using t by (simp add: transitingDeckUnloaded_def Let_def start_def)
  qed
  then obtain s1 where s1: "(if Some sender = transitingDeck s then transitingDeckUnloaded sender s else Inr s) = Inr s1"
    and l1: "\<not> isTrackLoaded (deckOf s1 sender)" using assms by blast
  define s4 where "s4 = dequeueDeck sender s1"
  have "\<not> isTrackLoaded (deckOf (s4\<lparr>keepPlaying := True\<rparr>) sender)"
    using l1 by (simp add: s4_def dequeueDeck_def markAsMain_def Let_def)
  from getAvailableDeck_sender [OF this]
  have "\<exists>r. loadNextTrack None True (s4\<lparr>keepPlaying := True\<rparr>) = Inr r"
    by (auto simp: loadNextTrack_def getAnotherDeck_def Let_def)
  then have "\<exists>s'. continuePlaying s4 = Inr s'"
    by (auto simp: continuePlaying_def Let_def split: sum.splits)
  with s1 show ?thesis by (simp add: deckUnloaded_def s4_def)
qed



lemma getAvailableDeck_empty:
  "getAvailableDeck s = Some d \<Longrightarrow> \<not> isTrackLoaded (deckOf s d)"
  by (auto simp: getAvailableDeck_def deckOf_def split: if_splits)

lemma loadNextTrack_loaded:
  assumes "loadNextTrack cur pl s = Inr (ok, s')"
  shows "(isTrackLoaded (deckOf s' d) \<longrightarrow> isTrackLoaded (deckOf s d))
       \<and> (cur = None \<longrightarrow> isTrackLoaded (deckOf s' d) = isTrackLoaded (deckOf s d))"
proof (cases "getAnotherDeck s cur")
  case None
  with assms have "s' = s" by (auto simp: loadNextTrack_def split: option.splits)
  then show ?thesis by simp
next
  case (Some deck)
  define s1 where "s1 = (if isTrackLoading (deckOf s deck) then unloadTrack deck s else s)"
  from assms Some have l: "loadLoop deck pl (queue s1) s1 = (ok, s')"
    by (simp add: loadNextTrack_def s1_def Let_def)
  note f = loadLoop_frame [OF l]
  have a: "isTrackLoaded (deckOf s' deck) = isTrackLoaded (deckOf s1 deck)"
    and b: "deckOf s' (other deck) = deckOf s1 (other deck)"
    using f by simp_all
  have c: "isTrackLoaded (deckOf s1 x) \<longrightarrow> isTrackLoaded (deckOf s x)" for x
    by (simp add: s1_def unloadTrack_def deck_unloadTrack_def)
  have e: "cur = None \<Longrightarrow> isTrackLoaded (deckOf s1 x) = isTrackLoaded (deckOf s x)" for x
  proof -
    assume "cur = None"
    with Some have "getAvailableDeck s = Some deck" by (simp add: getAnotherDeck_def)
    from getAvailableDeck_empty [OF this] show ?thesis
      by (simp add: s1_def unloadTrack_def deck_unloadTrack_def)
  qed
  from deck_cases [of d deck] a b c [of d] e [of d] show ?thesis by auto
qed

lemma deckUnloaded_loaded:
  assumes "deckUnloaded sender s = Inr s'"
  shows "isTrackLoaded (deckOf s' d) = isTrackLoaded (deckOf s d)"
proof -
  obtain s1 where s1: "(if Some sender = transitingDeck s then transitingDeckUnloaded sender s else Inr s) = Inr s1"
    and cp: "continuePlaying (dequeueDeck sender s1) = Inr s'"
    using assms by (auto simp: deckUnloaded_def split: sum.splits)
  have 1: "isTrackLoaded (deckOf s1 d) = isTrackLoaded (deckOf s d)"
    using s1
    by (auto simp: transitingDeckUnloaded_def Let_def start_def deck_start_def
        split: if_splits option.splits)
  have 2: "isTrackLoaded (deckOf (dequeueDeck sender s1) d) = isTrackLoaded (deckOf s1 d)"
    by (simp add: dequeueDeck_def Let_def markAsMain_def)
  have 3: "isTrackLoaded (deckOf s' d) = isTrackLoaded (deckOf (dequeueDeck sender s1) d)"
    using cp
    by (auto simp: continuePlaying_def Let_def split: if_splits sum.splits
        dest!: loadNextTrack_loaded [where d = d])
  from 1 2 3 show ?thesis by simp
qed

lemma transitStep_loaded:
  "isTrackLoaded (deckOf (transitStep n position a l s) d) = isTrackLoaded (deckOf s d)"
  by (simp add: transitStep_def Let_def setVolume_def setPosition_def start_def deck_start_def)

lemma fadeOutStep_loaded:
  "isTrackLoaded (deckOf (fadeOutStep sender position a b s) d) = isTrackLoaded (deckOf s d)"
  by (simp add: fadeOutStep_def Let_def setVolume_def stop_deck_def deck_stop_def)

lemma cueStep_loaded:
  assumes "cueStep sender (other sender) position a b s = Inr fl"
  shows "isTrackLoaded (deckOf (flowState fl) d) \<longrightarrow> isTrackLoaded (deckOf s d)"
proof (cases "ts_rank (transitionState s) < ts_rank Cued \<and> position > b")
  case False
  with assms show ?thesis
    by (auto simp: cueStep_def Let_def announcePreCue_frame split: if_splits)
next
  case True
  define s1 where "s1 = announcePreCue position a s"
  obtain ok s2 where l: "loadNextTrack (Some sender) False s1 = Inr (ok, s2)"
    using loadNextTrack_Some by blast
  from loadNextTrack_loaded [OF l, of d]
  have m: "isTrackLoaded (deckOf s2 d) \<longrightarrow> isTrackLoaded (deckOf s d)"
    by (simp add: s1_def announcePreCue_frame)
  from assms True l have "isTrackLoaded (deckOf (flowState fl) d) = isTrackLoaded (deckOf s2 d)"
    by (auto simp: cueStep_def Let_def s1_def split: if_splits)
  with m show ?thesis by simp
qed

lemma deckPosition_loaded:
  assumes "deckPosition sender position s = Inr s'"
  shows "isTrackLoaded (deckOf s' d) \<longrightarrow> isTrackLoaded (deckOf s d)"
proof (cases "isMain (deckOf s sender)")
  case False
  with assms show ?thesis
    by (auto simp: deckPosition_def Let_def markAsMain_def split: if_splits)
next
  case True
  obtain fl where fl: "cueStep sender (other sender) position
             (getTransitionPreCuePosition (deckOf s sender))
             (getTransitionCuePosition (deckOf s sender))
             (emit (CbDeckPosition sender position) s) = Inr fl"
    using cueStep_total by blast
  from cueStep_loaded [OF fl, of d]
  have m: "isTrackLoaded (deckOf (flowState fl) d) \<longrightarrow> isTrackLoaded (deckOf s d)" by simp
  from assms True fl have "isTrackLoaded (deckOf s' d) = isTrackLoaded (deckOf (flowState fl) d)"
    by (cases fl) (auto simp: deckPosition_main transitStep_loaded fadeOutStep_loaded)
  with m show ?thesis by simp
qed

lemma play_loaded:
  assumes "play s = Inr s'"
  shows "isTrackLoaded (deckOf s' d) = isTrackLoaded (deckOf s d)"
  using assms
  by (auto simp: play_def setPause_def split: if_splits sum.splits
      dest!: loadNextTrack_loaded [where d = d])

lemma fadeOutMainDeck_loaded:
  "isTrackLoaded (deckOf (fadeOutMainDeck s) d) \<longrightarrow> isTrackLoaded (deckOf s d)"
  by (cases "getMainDeck s")
    (auto simp: fadeOutMainDeck_def Let_def unloadTrack_def deck_unloadTrack_def setPause_def
      split: option.splits if_splits)

lemma stop_loaded: "\<not> isTrackLoaded (deckOf (stop s) d)"
  by (cases d) (simp_all add: stop_def unloadTrack_def deck_unloadTrack_def)

lemma deliverUnloaded_effect:
  assumes "engineInv s1" and "deliverUnloaded s0 d s1 = Inr s2"
  shows "engineInv s2
       \<and> (\<forall>x. isTrackLoaded (deckOf s2 x) = isTrackLoaded (deckOf s1 x))
       \<and> deckQueue s2 = (if isTrackLoaded (deckOf s0 d) \<and> \<not> isTrackLoaded (deckOf s1 d)
                          then removeAll d (deckQueue s1) else deckQueue s1)"
proof (cases "isTrackLoaded (deckOf s0 d) \<and> \<not> isTrackLoaded (deckOf s1 d)")
  case False
  with assms show ?thesis by (auto simp: deliverUnloaded_def)
next
  case True
  with assms(2) have u: "deckUnloaded d s1 = Inr s2" by (simp add: deliverUnloaded_def)
  from engineInv_deckUnloaded [OF assms(1) u] deckUnloaded_loaded [OF u] deckUnloaded_queue [OF u]
    True show ?thesis by simp
qed

lemma deliverUnloaded_total:
  "\<exists>s2. deliverUnloaded s0 d s1 = Inr s2"
  using deckUnloaded_total [of s1 d] by (auto simp: deliverUnloaded_def)

lemma delivered:
  assumes "engineInv s" and "queueIsLoaded s" and "engineInv s1"
    and "deckQueue s1 = deckQueue s"
    and "\<And>d. isTrackLoaded (deckOf s1 d) \<longrightarrow> isTrackLoaded (deckOf s d)"
    and "deliverUnloaded s DeckA s1 = Inr s2" and "deliverUnloaded s DeckB s2 = Inr s3"
  shows "engineInv s3 \<and> queueIsLoaded s3"
proof -
  note a = deliverUnloaded_effect [OF assms(3) assms(6)]
  from a have i2: "engineInv s2" by simp
  note b = deliverUnloaded_effect [OF i2 assms(7)]
  have l3: "isTrackLoaded (deckOf s3 x) = isTrackLoaded (deckOf s1 x)" for x
    using a b by simp
  have q: "x \<in> set (deckQueue s) \<longleftrightarrow> isTrackLoaded (deckOf s x)" for x
    using assms(2) by (simp add: queueIsLoaded_def)
  have "x \<in> set (deckQueue s3) \<longleftrightarrow> isTrackLoaded (deckOf s3 x)" for x
  proof (cases x)
    case DeckA
    with a b assms(4) assms(5) [of DeckA] q [of DeckA] l3 [of DeckA] show ?thesis
      by (auto split: if_splits)
  next
    case DeckB
    with a b assms(4) assms(5) [of DeckB] q [of DeckB] l3 [of DeckB] show ?thesis
      by (auto split: if_splits)
  qed
  with b show ?thesis by (simp add: queueIsLoaded_def)
qed

lemma step_keeps_queue:
  assumes "step e s = Inr s1"
    and "\<forall>d. e \<noteq> EvDeckLoaded d \<and> e \<noteq> EvDeckUnloaded d" and "\<forall>d dk. e \<noteq> EnvDeck d dk"
  shows "deckQueue s1 = deckQueue s
       \<and> (\<forall>d. isTrackLoaded (deckOf s1 d) \<longrightarrow> isTrackLoaded (deckOf s d))"
proof (cases e)
  case (EvDeckPosition d p)
  with assms(1) have dp: "deckPosition d p s = Inr s1" by simp
  from deckPosition_effects(1) [OF dp] deckPosition_loaded [OF dp] show ?thesis by simp
next
  case EvPlay
  with assms(1) have p: "play s = Inr s1" by simp
  from play_frame [OF p] play_loaded [OF p] show ?thesis by simp
next
  case EvStop
  with assms(1) have "s1 = stop s" by simp
  with stop_frame [of s] stop_loaded [of s] show ?thesis by simp
next
  case EvFadeOutMainDeck
  with assms(1) have "s1 = fadeOutMainDeck s" by simp
  with fadeOutMainDeck_effect [of s] fadeOutMainDeck_loaded [of s] show ?thesis by simp
next
  case (EvDeckLoaded d)
  with assms(2) show ?thesis by simp
next
  case (EvDeckUnloaded d)
  with assms(2) show ?thesis by simp
next
  case (EnvDeck d dk)
  with assms(3) show ?thesis by simp
qed (use assms(1) in \<open>auto simp: deckStarted_def deckFinished_def setFadingCurve_def
      updateFadingFactor_def setMaxTransitionTime_def setPositionInSeconds_def
      setPositionFractional_def setPosition_def Let_def split: option.splits\<close>)

lemma deckStep_inv:
  assumes "engineInv s" and "queueIsLoaded s" and "deckStep e s = Inr s'"
  shows "engineInv s' \<and> queueIsLoaded s'"
proof -
  have q: "x \<in> set (deckQueue s) \<longleftrightarrow> isTrackLoaded (deckOf s x)" for x
    using assms(2) by (simp add: queueIsLoaded_def)
  have other_step: "engineInv s' \<and> queueIsLoaded s'"
    if n: "\<forall>d. e \<noteq> EvDeckLoaded d \<and> e \<noteq> EvDeckUnloaded d" "\<forall>d dk. e \<noteq> EnvDeck d dk"
      and d: "deckStep e s = (case step e s of Inl x \<Rightarrow> Inl x
                | Inr s1 \<Rightarrow> (case deliverUnloaded s DeckA s1 of Inl x \<Rightarrow> Inl x
                             | Inr s2 \<Rightarrow> deliverUnloaded s DeckB s2))"
  proof -
    from assms(3) d obtain s1 s2 where s1: "step e s = Inr s1"
      and s2: "deliverUnloaded s DeckA s1 = Inr s2" and s3: "deliverUnloaded s DeckB s2 = Inr s'"
      by (auto split: sum.splits)
    from step_effect [OF assms(1) s1] have i1: "engineInv s1" by simp
    from step_keeps_queue [OF s1 n] have k: "deckQueue s1 = deckQueue s"
      "\<And>d. isTrackLoaded (deckOf s1 d) \<longrightarrow> isTrackLoaded (deckOf s d)" by simp_all
    from delivered [OF assms(1,2) i1 k s2 s3] show ?thesis .
  qed
  show ?thesis
  proof (cases e)
    case (EvDeckLoaded d)
    define s1 where "s1 = updDeck d (\<lambda>dk. dk\<lparr>isTrackLoaded := True, isTrackLoading := False\<rparr>) s"
    have "engineInv s1 = engineInv s"
      by (rule engineInv_cong) (simp_all add: s1_def)
    with assms(1) have i1: "engineInv s1" by simp
    from assms(3) EvDeckLoaded have s': "s' = deckLoaded d s1"
      by (simp add: deckBecomesLoaded_def s1_def)
    have "deckQueue s' = deckQueue s @ [d]"
      "\<And>x. isTrackLoaded (deckOf s' x) = (x = d \<or> isTrackLoaded (deckOf s x))"
      by (auto simp: s' s1_def deckLoaded_def Let_def markAsMain_def)
    with q have "queueIsLoaded s'" by (auto simp: queueIsLoaded_def)
    with engineInv_deckLoaded [OF i1, of d] s' show ?thesis by simp
  next
    case (EvDeckUnloaded d)
    define s1 where "s1 = updDeck d deck_unloadTrack s"
    have "engineInv s1 = engineInv s"
      by (rule engineInv_cong) (simp_all add: s1_def deck_unloadTrack_def)
    with assms(1) have i1: "engineInv s1" by simp
    from assms(3) EvDeckUnloaded have u: "deckUnloaded d s1 = Inr s'"
      by (simp add: deckBecomesEmpty_def s1_def)
    have "deckQueue s' = removeAll d (deckQueue s)"
      using deckUnloaded_queue [OF u] by (simp add: s1_def)
    moreover have "isTrackLoaded (deckOf s' x) = (x \<noteq> d \<and> isTrackLoaded (deckOf s x))" for x
      using deckUnloaded_loaded [OF u, of x] by (simp add: s1_def deck_unloadTrack_def)
    ultimately have "queueIsLoaded s'" using q by (auto simp: queueIsLoaded_def)
    with engineInv_deckUnloaded [OF i1 u] show ?thesis by simp
  next
    case (EnvDeck d dk)
    with assms(3)
    have s': "s' = updDeck d (\<lambda>old. dk\<lparr>isMain := isMain old, isTrackLoaded := isTrackLoaded old\<rparr>) s"
      by simp
    have "engineInv s' = engineInv s"
      by (rule engineInv_cong) (simp_all add: s')
    moreover have "queueIsLoaded s'" using q by (simp add: queueIsLoaded_def s')
    ultimately show ?thesis using assms(1) by simp
  qed (rule other_step; simp)+
qed

lemma deckRun_inv:
  "engineInv s \<Longrightarrow> queueIsLoaded s \<Longrightarrow> deckRun evs s = Inr s' \<Longrightarrow>
   engineInv s' \<and> queueIsLoaded s'"
proof (induction evs arbitrary: s)
  case Nil
  then show ?case by simp
next
  case (Cons e es)
  from Cons.prems(3) obtain s1 where s1: "deckStep e s = Inr s1" and r: "deckRun es s1 = Inr s'"
    by (auto split: sum.splits)
  from deckStep_inv [OF Cons.prems(1,2) s1] Cons.IH [OF _ _ r] show ?case by blast
qed

lemma queueIsLoaded_new: "queueIsLoaded (newMedley c ml mt q)"
  by (simp add: queueIsLoaded_def newMedley_def updateFadingFactor_def newDeck_def deckOf_def
      split: deck_id.splits)


section \<open>The mixer's pause switch\<close>

text \<open>
  C10. \<open>Mixer::togglePause\<close> flips the paused flag and returns the new value, which is
  true exactly when the mixer is now paused; two calls in a row restore the paused flag
  and return complementary booleans.
\<close>

theorem togglePause_flips:
  "fst (togglePause m) = paused (snd (togglePause m))
   \<and> paused (snd (togglePause m)) = (\<not> paused m)
   \<and> snd (togglePause (snd (togglePause m))) = m
   \<and> fst (togglePause (snd (togglePause m))) = (\<not> fst (togglePause m))"
  by (simp add: togglePause_def)

section \<open>Unloading the transiting deck\<close>

text \<open>
  C6. When the deck recorded as \<open>transitingDeck\<close> emits its unloaded event, the transition
  state returns to \<open>Idle\<close> and \<open>transitingDeck\<close> is cleared; if the state was \<open>Cued\<close> and the
  other deck holds a track, the other deck is started (the call is the first thing the
  handler does, and the deck plays afterwards). The handler returns whenever the sender
  holds no track any more, and whenever it starts the other deck.
\<close>

theorem deckUnloaded_transiting:
  assumes "transitingDeck s = Some sender"
  shows "(\<not> isTrackLoaded (deckOf s sender)
            \<or> transitionState s = Cued \<and> isTrackLoaded (deckOf s (other sender))
          \<longrightarrow> (\<exists>s'. deckUnloaded sender s = Inr s'))
       \<and> (\<forall>s'. deckUnloaded sender s = Inr s' \<longrightarrow>
             transitionState s' = Idle \<and> transitingDeck s' = None
             \<and> (transitionState s = Cued \<and> isTrackLoaded (deckOf s (other sender)) \<longrightarrow>
                  isPlaying (deckOf s' (other sender))
                  \<and> take 1 (drop (length (trace s)) (trace s')) = [Call (other sender) Start]))"
proof -
  let ?n = "other sender"
  let ?go = "transitionState s = Cued \<and> isTrackLoaded (deckOf s ?n)"
  define s1 where "s1 = (if ?go then start ?n s else s)"
  define s2 where "s2 = s1\<lparr>transitionState := Idle, transitingDeck := None\<rparr>"
  define s3 where "s3 = (if forceFadingOut s2 > 0 then s2\<lparr>forceFadingOut := forceFadingOut s2 - 1\<rparr> else s2)"
  define s4 where "s4 = dequeueDeck sender s3"
  have first: "transitingDeckUnloaded sender s = Inr s3"
    using assms by (simp add: transitingDeckUnloaded_def s1_def s2_def s3_def Let_def)
  have du: "deckUnloaded sender s = continuePlaying s4"
    using assms first by (simp add: deckUnloaded_def s4_def)
  have s4: "transitionState s4 = Idle \<and> transitingDeck s4 = None"
    by (simp add: s4_def s3_def s2_def dequeueDeck_def deck_ops Let_def)
  have s4n: "isPlaying (deckOf s4 ?n) = isPlaying (deckOf s1 ?n)"
       "isTrackLoaded (deckOf s4 sender) = isTrackLoaded (deckOf s sender)"
    by (simp_all add: s4_def s3_def s2_def s1_def dequeueDeck_def deck_ops Let_def)
  have tr: "\<exists>r. trace s4 = trace s1 @ r"
    by (simp add: s4_def s3_def s2_def dequeueDeck_def deck_ops Let_def)
  have go: "?go \<Longrightarrow> isPlaying (deckOf s1 ?n) \<and> trace s1 = trace s @ [Call ?n Start]"
    by (simp add: s1_def deck_ops)
  have cp_go: "?go \<Longrightarrow> continuePlaying s4 = Inr s4"
    using go s4n isDeckPlaying_I [of s4 ?n] by (simp add: continuePlaying_def)
  have cp_frame: "continuePlaying s4 = Inr s' \<Longrightarrow>
      transitionState s' = Idle \<and> transitingDeck s' = None" for s'
    using s4 by (auto simp: continuePlaying_def Let_def split: if_splits sum.splits
        dest!: loadNextTrack_frame [where d = sender])
  have cp_total: "\<not> isTrackLoaded (deckOf s sender) \<Longrightarrow> \<exists>s'. continuePlaying s4 = Inr s'"
  proof -
    assume "\<not> isTrackLoaded (deckOf s sender)"
    then have "\<not> isTrackLoaded (deckOf (s4\<lparr>keepPlaying := True\<rparr>) sender)"
      using s4n by simp
    from getAvailableDeck_sender [OF this]
    have "\<exists>r. loadNextTrack None True (s4\<lparr>keepPlaying := True\<rparr>) = Inr r"
      by (auto simp: loadNextTrack_def getAnotherDeck_def Let_def)
    then show ?thesis
      by (auto simp: continuePlaying_def Let_def split: sum.splits)
  qed
  show ?thesis
  proof (intro conjI impI allI)
    assume "\<not> isTrackLoaded (deckOf s sender) \<or> ?go"
    then show "\<exists>s'. deckUnloaded sender s = Inr s'"
      using cp_total cp_go du by auto
  next
    fix s' assume "deckUnloaded sender s = Inr s'"
    then show "transitionState s' = Idle" "transitingDeck s' = None"
      using cp_frame du by auto
  next
    fix s' assume r: "deckUnloaded sender s = Inr s'" and g: ?go
    then have "s' = s4" using cp_go du by simp
    then show "isPlaying (deckOf s' ?n)"
      "take 1 (drop (length (trace s)) (trace s')) = [Call ?n Start]"
      using go [OF g] s4n tr by auto
  qed
qed

theorem deckUnloaded_transiting_witness:
  "transitingDeck (exampleMedley Cued 0) = Some DeckA
   \<and> (\<exists>s'. deckUnloaded DeckA (exampleMedley Cued 0) = Inr s'
          \<and> transitionState s' = Idle \<and> transitingDeck s' = None
          \<and> isPlaying (deckOf s' DeckB)
          \<and> take 1 (drop (length (trace (exampleMedley Cued 0))) (trace s')) = [Call DeckB Start])"
proof -
  have h: "transitingDeck (exampleMedley Cued 0) = Some DeckA"
    by (simp add: example_defs)
  have g: "transitionState (exampleMedley Cued 0) = Cued
           \<and> isTrackLoaded (deckOf (exampleMedley Cued 0) (other DeckA))"
    by (simp add: example_defs)
  note t = deckUnloaded_transiting [OF h]
  from t g obtain s' where s': "deckUnloaded DeckA (exampleMedley Cued 0) = Inr s'"
    by blast
  with t g have "transitionState s' = Idle \<and> transitingDeck s' = None
      \<and> isPlaying (deckOf s' (other DeckA))
      \<and> take 1 (drop (length (trace (exampleMedley Cued 0))) (trace s')) = [Call (other DeckA) Start]"
    by blast
  with h s' show ?thesis by simp
qed

section \<open>Entering the transition\<close>

text \<open>
  C5. On the step from \<open>Cued\<close> to \<open>Transit\<close>, when a fade-out is forced and the leading
  of the incoming deck is at least the maximal leading duration, the engine sets the
  incoming deck's volume, seeks it to first audible position plus leading minus maximal
  leading duration, and only then starts it.
\<close>

theorem deckPosition_forced_seek:
  assumes "isMain (deckOf s sender)"
    and "transitionState s = Cued"
    and "position > getTransitionStartPosition (deckOf s sender)
                      - getLeadingDuration (deckOf s (other sender))"
    and "isTrackLoaded (deckOf s (other sender))"
    and "forceFadingOut s > 0"
    and "getLeadingDuration (deckOf s (other sender)) \<ge> maxLeadingDuration s"
  shows "\<exists>s' rest. deckPosition sender position s = Inr s'
           \<and> transitionState s' = Transit
           \<and> isPlaying (deckOf s' (other sender))
           \<and> trace s' = trace s @
                [CbDeckPosition sender position,
                 Call (other sender) (SetVolume (Fin 1)),
                 Call (other sender) (SetPosition
                   (getFirstAudiblePosition (deckOf s (other sender))
                      + getLeadingDuration (deckOf s (other sender)) - maxLeadingDuration s)),
                 Call (other sender) Start] @ rest"
proof -
  let ?n = "other sender"
  let ?start = "getTransitionStartPosition (deckOf s sender)"
  let ?lead = "getLeadingDuration (deckOf s ?n)"
  define s0 where "s0 = emit (CbDeckPosition sender position) s"
  define s1 where "s1 = transitStep ?n position ?start ?lead s0"
  define s2 where "s2 = fadeOutStep sender position ?start (getTransitionEndPosition (deckOf s sender)) s1"
  have dp: "deckPosition sender position s = Inr s2"
    using assms(1,2) by (simp add: deckPosition_main cueStep_skip s0_def s1_def s2_def)
  have t1: "transitionState s1 = Transit \<and> isPlaying (deckOf s1 ?n)
      \<and> (\<exists>r. trace s1 = trace s @
                [CbDeckPosition sender position,
                 Call ?n (SetVolume (Fin 1)),
                 Call ?n (SetPosition (getFirstAudiblePosition (deckOf s ?n) + ?lead - maxLeadingDuration s)),
                 Call ?n Start] @ r)"
    using assms(2-6)
    by (simp add: s1_def s0_def transitStep_def Let_def setVolume_def setPosition_def start_def
        deck_start_def)
  from fadeOutStep_trace [of sender position ?start "getTransitionEndPosition (deckOf s sender)" s1]
  obtain r2 where r2: "trace s2 = trace s1 @ r2" by (auto simp: s2_def)
  from t1 obtain r1 where r1: "trace s1 = trace s @
                [CbDeckPosition sender position,
                 Call ?n (SetVolume (Fin 1)),
                 Call ?n (SetPosition (getFirstAudiblePosition (deckOf s ?n) + ?lead - maxLeadingDuration s)),
                 Call ?n Start] @ r1" by blast
  have "transitionState s2 = Transit" "isPlaying (deckOf s2 ?n)"
    using t1 by (simp_all add: s2_def fadeOutStep_frame)
  moreover have "trace s2 = trace s @
                [CbDeckPosition sender position,
                 Call ?n (SetVolume (Fin 1)),
                 Call ?n (SetPosition (getFirstAudiblePosition (deckOf s ?n) + ?lead - maxLeadingDuration s)),
                 Call ?n Start] @ (r1 @ r2)"
    using r1 r2 by simp
  ultimately show ?thesis using dp by blast
qed

theorem deckPosition_forced_seek_witness:
  "\<exists>s' rest. deckPosition DeckA (19 / 2) (exampleMedley Cued 1) = Inr s'
      \<and> transitionState s' = Transit
      \<and> isPlaying (deckOf s' DeckB)
      \<and> trace s' =
           [CbDeckPosition DeckA (19 / 2), Call DeckB (SetVolume (Fin 1)),
            Call DeckB (SetPosition (3 / 2)), Call DeckB Start] @ rest"
  using deckPosition_forced_seek [of "exampleMedley Cued 1" DeckA "19 / 2"]
  by (simp add: example_defs)

section \<open>Loading the next track when both decks hold one\<close>

text \<open>
  C9. When both decks hold a track, \<open>loadNextTrack\<close> without a current deck finds no
  deck; the source then reads the name of the current deck through a null pointer before
  it could return false. Here: both decks report a loaded track, none plays, and the
  caller calls \<open>play\<close>.
\<close>

theorem play_both_decks_loaded:
  "run [EnvDeck DeckA (newDeck\<lparr>isTrackLoaded := True\<rparr>),
        EnvDeck DeckB (newDeck\<lparr>isTrackLoaded := True\<rparr>),
        EvPlay] (newMedley 0 0 0 [Track 0 True]) = Inl NullPointerDereference"
  by (simp add: newMedley_def updateFadingFactor_def updDeck_def newDeck_def play_def
      isDeckPlaying_def loadNextTrack_def getAnotherDeck_def getAvailableDeck_def)

section \<open>The cue point\<close>

text \<open>
  C2. On a position event of the main deck while the transition state is below \<open>Cued\<close>
  and the position is past the cue point, the engine calls \<open>loadNextTrack\<close> for the other
  deck (after the pre-cue announcement); a track loads exactly when the queue holds a
  loadable one. When no track loads and the fade counter is 0, the handler returns: the
  state stays below \<open>Cued\<close> and \<open>transitingDeck\<close> is as before. Otherwise the cue step sets
  the state to \<open>Cued\<close> and \<open>transitingDeck\<close> to the sender; the handler goes on to its
  transit block, so at its end \<open>transitingDeck\<close> is the sender and the state is \<open>Cued\<close>, or
  \<open>Transit\<close> when the transition starts in the same event. The fade counter is never
  negative.
\<close>

theorem deckPosition_cue:
  assumes "isMain (deckOf s sender)"
    and "ts_rank (transitionState s) < ts_rank Cued"
    and "position > getTransitionCuePosition (deckOf s sender)"
    and "forceFadingOut s \<ge> 0"
  shows "\<exists>loaded s2.
           loadNextTrack (Some sender) False
             (announcePreCue position (getTransitionPreCuePosition (deckOf s sender))
                (emit (CbDeckPosition sender position) s)) = Inr (loaded, s2)
           \<and> loaded = (\<exists>t \<in> set (queue s). loadable t)
           \<and> (\<not> loaded \<and> forceFadingOut s = 0 \<longrightarrow>
                 deckPosition sender position s = Inr s2
                 \<and> ts_rank (transitionState s2) < ts_rank Cued
                 \<and> transitingDeck s2 = transitingDeck s)
           \<and> (\<not> (\<not> loaded \<and> forceFadingOut s = 0) \<longrightarrow>
                 (\<exists>s3. cueStep sender (other sender) position
                          (getTransitionPreCuePosition (deckOf s sender))
                          (getTransitionCuePosition (deckOf s sender))
                          (emit (CbDeckPosition sender position) s) = Inr (Continues s3)
                        \<and> transitionState s3 = Cued \<and> transitingDeck s3 = Some sender)
                 \<and> (\<exists>s'. deckPosition sender position s = Inr s'
                        \<and> transitingDeck s' = Some sender
                        \<and> (transitionState s' = Cued \<or> transitionState s' = Transit)))"
proof -
  let ?n = "other sender"
  let ?pre = "getTransitionPreCuePosition (deckOf s sender)"
  let ?cue = "getTransitionCuePosition (deckOf s sender)"
  let ?start = "getTransitionStartPosition (deckOf s sender)"
  let ?end = "getTransitionEndPosition (deckOf s sender)"
  let ?lead = "getLeadingDuration (deckOf s ?n)"
  define s0 where "s0 = emit (CbDeckPosition sender position) s"
  define s1 where "s1 = announcePreCue position ?pre s0"
  from loadNextTrack_Some [of sender False s1]
  obtain loaded s2 where l: "loadNextTrack (Some sender) False s1 = Inr (loaded, s2)"
    and ok: "loaded = (\<exists>t \<in> set (queue s1). loadable t)" by blast
  note f = loadNextTrack_frame [OF l, of sender]
  have q: "queue s1 = queue s"
    by (simp add: s1_def s0_def announcePreCue_frame)
  have r0: "ts_rank (transitionState s0) < ts_rank Cued"
    using assms(2) by (simp add: s0_def)
  have r2: "ts_rank (transitionState s2) < ts_rank Cued"
    using f announcePreCue_frame(8) [OF r0] by (simp add: s1_def)
  have td: "transitingDeck s2 = transitingDeck s" "forceFadingOut s2 = forceFadingOut s"
    and m2: "isMain (deckOf s2 sender)"
    using f assms(1) by (simp_all add: s1_def s0_def announcePreCue_frame)
  define s3 where "s3 = s2\<lparr>transitionState := Cued, transitingDeck := Some sender\<rparr>"
  have ret: "cueStep sender ?n position ?pre ?cue s0 = Inr (Returned s2)"
    if "\<not> loaded \<and> forceFadingOut s = 0"
    using that r0 l assms(3) td by (simp add: cueStep_def s1_def Let_def)
  have cont: "cueStep sender ?n position ?pre ?cue s0 = Inr (Continues s3)"
    if "\<not> (\<not> loaded \<and> forceFadingOut s = 0)"
    using that r0 l assms(3,4) td m2 by (auto simp: cueStep_def s1_def s3_def Let_def)
  define s4 where "s4 = fadeOutStep sender position ?start ?end (transitStep ?n position ?start ?lead s3)"
  have s4: "transitingDeck s4 = Some sender"
    "transitionState s4 = Cued \<or> transitionState s4 = Transit"
    by (simp_all add: s4_def s3_def fadeOutStep_frame transitStep_frame transitStep_state)
  show ?thesis
  proof (intro exI conjI impI)
    show "loadNextTrack (Some sender) False
            (announcePreCue position ?pre (emit (CbDeckPosition sender position) s)) = Inr (loaded, s2)"
      using l by (simp add: s1_def s0_def)
    show "loaded = (\<exists>t \<in> set (queue s). loadable t)" using ok q by simp
  next
    assume a: "\<not> loaded \<and> forceFadingOut s = 0"
    show "deckPosition sender position s = Inr s2"
      using ret [OF a] assms(1) by (simp add: deckPosition_main s0_def)
    show "ts_rank (transitionState s2) < ts_rank Cued" by (rule r2)
    show "transitingDeck s2 = transitingDeck s" by (rule td)
  next
    assume a: "\<not> (\<not> loaded \<and> forceFadingOut s = 0)"
    show "cueStep sender ?n position ?pre ?cue (emit (CbDeckPosition sender position) s) = Inr (Continues s3)"
      using cont [OF a] by (simp add: s0_def)
    show "transitionState s3 = Cued" "transitingDeck s3 = Some sender"
      by (simp_all add: s3_def)
    show "deckPosition sender position s = Inr s4"
      using cont [OF a] assms(1) by (simp add: deckPosition_main s0_def s4_def)
    show "transitingDeck s4 = Some sender" by (rule s4)
    show "transitionState s4 = Cued \<or> transitionState s4 = Transit" by (rule s4)
  qed
qed

theorem deckPosition_cue_witness:
  "isMain (deckOf (exampleMedley Idle 0) DeckA)
   \<and> ts_rank (transitionState (exampleMedley Idle 0)) < ts_rank Cued
   \<and> 9 > getTransitionCuePosition (deckOf (exampleMedley Idle 0) DeckA)
   \<and> forceFadingOut (exampleMedley Idle 0) = 0
   \<and> (\<exists>s2. deckPosition DeckA 9 (exampleMedley Idle 0) = Inr s2
          \<and> ts_rank (transitionState s2) < ts_rank Cued \<and> transitingDeck s2 = None)
   \<and> (\<exists>s'. deckPosition DeckA 9 (exampleMedley Idle 1) = Inr s'
          \<and> transitingDeck s' = Some DeckA
          \<and> (transitionState s' = Cued \<or> transitionState s' = Transit))"
proof -
  let ?a = "exampleMedley Idle 0" and ?b = "exampleMedley Idle 1"
  have a: "isMain (deckOf ?a DeckA)" "ts_rank (transitionState ?a) < ts_rank Cued"
    "9 > getTransitionCuePosition (deckOf ?a DeckA)" "forceFadingOut ?a \<ge> 0"
    by (simp_all add: example_defs)
  have b: "isMain (deckOf ?b DeckA)" "ts_rank (transitionState ?b) < ts_rank Cued"
    "9 > getTransitionCuePosition (deckOf ?b DeckA)" "forceFadingOut ?b \<ge> 0"
    by (simp_all add: example_defs)
  have qa: "queue ?a = []" "forceFadingOut ?a = 0" "transitingDeck ?a = None"
    and qb: "forceFadingOut ?b \<noteq> 0"
    by (simp_all add: example_defs)
  from deckPosition_cue [OF a] qa
  have 1: "\<exists>s2. deckPosition DeckA 9 ?a = Inr s2
          \<and> ts_rank (transitionState s2) < ts_rank Cued \<and> transitingDeck s2 = None"
    by auto
  from deckPosition_cue [OF b] qb
  have 2: "\<exists>s'. deckPosition DeckA 9 ?b = Inr s' \<and> transitingDeck s' = Some DeckA
          \<and> (transitionState s' = Cued \<or> transitionState s' = Transit)"
    by auto
  from a(1-3) qa(2) 1 2 show ?thesis by blast
qed

section \<open>The pre-cue announcement\<close>

text \<open>
  C7. In every state that a new engine reaches, a step announces the pre-cue exactly when
  it is a position event of the main deck in state \<open>Idle\<close> with the position past the
  pre-cue point, and that step leaves \<open>Idle\<close>; the state re-enters \<open>Idle\<close> only when the
  transiting deck emits its unloaded event (after the transition, or earlier) or when a
  forced fade-out unloads it in \<open>Transit\<close>. So over a whole run the pre-cue is announced at
  most once more than the run re-enters \<open>Idle\<close>: at most once for every transition cycle.
\<close>

theorem preCueNext_once_per_cycle:
  assumes "run evs (newMedley c ml mt q) = Inr s"
  shows "preCues s \<le> cyclesEnded evs (newMedley c ml mt q) + 1
       \<and> (\<forall>e s'. step e s = Inr s' \<longrightarrow>
            preCues s' = preCues s + (if firesPreCue e s then 1 else 0)
            \<and> (firesPreCue e s \<longrightarrow> transitionState s = Idle \<and> transitionState s' \<noteq> Idle)
            \<and> (transitionState s \<noteq> Idle \<and> transitionState s' = Idle \<longrightarrow> endsTransition e s))"
proof -
  note inv = run_engineInv [OF assms]
  have 0: "preCues (newMedley c ml mt q) = 0" "transitionState (newMedley c ml mt q) = Idle"
    by (simp_all add: newMedley_def updateFadingFactor_def preCues_def)
  from run_effect [OF engineInv_new assms] 0
  have 1: "preCues s \<le> cyclesEnded evs (newMedley c ml mt q) + 1"
    by (simp split: if_splits)
  from step_effect [OF inv] firesPreCue_idle [of _ s] 1 show ?thesis by blast
qed

theorem preCueNext_once_per_cycle_witness:
  "\<exists>s. run [EvDeckLoaded DeckA, EnvDeck DeckA exampleDeck, EvDeckPosition DeckA 5,
             EvDeckPosition DeckA 6] (newMedley 0 0 0 []) = Inr s
      \<and> preCues s = 1
      \<and> cyclesEnded [EvDeckLoaded DeckA, EnvDeck DeckA exampleDeck, EvDeckPosition DeckA 5,
             EvDeckPosition DeckA 6] (newMedley 0 0 0 []) = 0"
proof -
  let ?evs = "[EvDeckLoaded DeckA, EnvDeck DeckA exampleDeck, EvDeckPosition DeckA 5,
             EvDeckPosition DeckA 6]"
  have c: "cyclesEnded ?evs (newMedley 0 0 0 []) = 0"
    by (simp add: newMedley_def newDeck_def exampleDeck_def updateFadingFactor_def deckLoaded_def
        markAsMain_def Let_def deckPosition_def getAnotherDeck_def cueStep_def announcePreCue_def
        transitStep_def fadeOutStep_def emit_def updDeck_def deckOf_def)
  have "map_sum id preCues (run ?evs (newMedley 0 0 0 [])) = Inr 1"
    by (simp add: newMedley_def newDeck_def exampleDeck_def updateFadingFactor_def deckLoaded_def
        markAsMain_def Let_def deckPosition_def getAnotherDeck_def cueStep_def announcePreCue_def
        transitStep_def fadeOutStep_def emit_def updDeck_def deckOf_def preCues_def)
  then obtain s where s: "run ?evs (newMedley 0 0 0 []) = Inr s" "preCues s = 1"
    by (cases "run ?evs (newMedley 0 0 0 [])") auto
  from preCueNext_once_per_cycle [OF s(1)] c have "preCues s \<le> 1" by simp
  with s c show ?thesis by blast
qed

section \<open>The fading curve\<close>

text \<open>
  C8, as stated, does not hold for the fading factor: it is stored as a \<open>float\<close>, and the
  quotient is narrowed to single precision. With a fading curve of 50 the formula gives
  2000/1001, which no \<open>float\<close> equals; the engine stores 2095057/1048576.
\<close>

theorem setFadingCurve_factor_counterexample:
  "getFadingCurve (setFadingCurve 50 (newMedley 0 0 0 [])) = 50
   \<and> (1000::real) / (((100 - 50) / 100) * 999 + 1) = 2000 / 1001
   \<and> fadingFactor (setFadingCurve 50 (newMedley 0 0 0 [])) = Fin (2095057 / 2 ^ 20)
   \<and> (2095057::real) / 2 ^ 20 \<noteq> 2000 / 1001"
  by (simp add: setFadingCurve_def updateFadingFactor_def getFadingCurve_def jlimit_def
      newMedley_def fdiv_def float32_example)

text \<open>
  C8, amended. After \<open>setFadingCurve c\<close> the fading curve that is read back is \<open>c\<close>
  limited to the interval from 0 to 100, and the fading factor is
  \<open>1000 / (((100 - fadingCurve) / 100) * 999 + 1)\<close> narrowed to single precision: a finite
  value within a relative distance of \<open>1 / 2 ^ 24\<close> of that quotient.
\<close>

theorem setFadingCurve_readback:
  "getFadingCurve (setFadingCurve c s) = max 0 (min 100 c)
   \<and> fadingFactor (setFadingCurve c s)
       = float32 (1000 / (((100 - getFadingCurve (setFadingCurve c s)) / 100) * 999 + 1))
   \<and> (\<exists>r. fadingFactor (setFadingCurve c s) = Fin r
          \<and> \<bar>r - 1000 / (((100 - getFadingCurve (setFadingCurve c s)) / 100) * 999 + 1)\<bar>
              \<le> 1000 / (((100 - getFadingCurve (setFadingCurve c s)) / 100) * 999 + 1) / 2 ^ 24)"
proof -
  define k where "k = jlimit 0 100 c"
  define den where "den = ((100 - k) / 100) * 999 + 1"
  have k: "0 \<le> k" "k \<le> 100" "k = max 0 (min 100 c)"
    by (simp_all add: k_def jlimit_def max_def min_def)
  have d: "1 \<le> den" "den \<le> 1000"
    using k(1,2) by (simp_all add: den_def)
  have rb: "getFadingCurve (setFadingCurve c s) = k"
    by (simp add: setFadingCurve_def updateFadingFactor_def getFadingCurve_def k_def)
  have "den \<noteq> 0" using d(1) by simp
  then have "fdiv 1000 den = Fin (1000 / den)" by (simp add: fdiv_def)
  moreover have "fadingFactor (setFadingCurve c s) = narrow (fdiv 1000 den)"
    by (simp add: setFadingCurve_def updateFadingFactor_def den_def k_def)
  ultimately have ff: "fadingFactor (setFadingCurve c s) = float32 (1000 / den)"
    by simp
  have q: "1 \<le> 1000 / den" "1000 / den \<le> 1000"
    using d by (simp_all add: field_simps)
  from float32_error [OF q] obtain r where r: "float32 (1000 / den) = Fin r"
    "\<bar>r - 1000 / den\<bar> \<le> 1000 / den / 2 ^ 24" by blast
  from rb k(3) ff r show ?thesis unfolding den_def by auto
qed

section \<open>The incoming deck's volume during the transition\<close>

text \<open>
  C4, as stated, does not hold for the value of the faded-in volume: the power is
  narrowed to \<open>float\<close> before it is set. In the example the fading factor is 1000, the
  leading of the incoming deck (1 second) is above the maximal leading duration, and a
  position event at 9.1 seconds enters the transition with a fade-in progress of 0.1,
  limited to 0.25; the power \<open>0.25 ^ 1000\<close> is positive, the volume that is set is 0.
\<close>

theorem deckPosition_fade_in_counterexample:
  "isMain (deckOf steepFadeExample DeckA)
   \<and> transitionState steepFadeExample = Cued
   \<and> getLeadingDuration (deckOf steepFadeExample DeckB) \<ge> maxLeadingDuration steepFadeExample
   \<and> fadingFactor steepFadeExample = Fin 1000
   \<and> map_sum id transitionState (deckPosition DeckA (91 / 10) steepFadeExample) = Inr Transit
   \<and> map_sum id (volume \<circ> deck2) (deckPosition DeckA (91 / 10) steepFadeExample) = Inr (Fin 0)
   \<and> max (1 / 4) (min 1 ((91 / 10 - (10 - 1)) / 1)) = (1 / 4 :: real)
   \<and> (0::real) < (1 / 4) powr 1000"
proof -
  have j: "jlimit_x (1 / 4) 1 (Fin (1 / 10)) = Fin (1 / 4)"
    by (simp add: jlimit_x_def)
  have "map_sum id (volume \<circ> deck2) (deckPosition DeckA (91 / 10) steepFadeExample)
      = Inr (narrow (pow (Fin (1 / 4)) (Fin 1000)))"
    by (simp add: steepFadeExample_eq example_defs deckPosition_def getAnotherDeck_def
        cueStep_def transitStep_def fadeOutStep_def Let_def emit_def updDeck_def setVolume_def
        start_def deck_start_def fdiv_def j del: pow.simps narrow.simps)
  moreover have "narrow (pow (Fin (1 / 4)) (Fin 1000)) = Fin 0"
    using float32_tiny by simp
  moreover have "map_sum id transitionState (deckPosition DeckA (91 / 10) steepFadeExample) = Inr Transit"
    by (simp add: steepFadeExample_eq example_defs deckPosition_def getAnotherDeck_def
        cueStep_def transitStep_def fadeOutStep_def Let_def emit_def updDeck_def setVolume_def
        start_def deck_start_def del: pow.simps narrow.simps)
  moreover have "isMain (deckOf steepFadeExample DeckA)" "transitionState steepFadeExample = Cued"
    "getLeadingDuration (deckOf steepFadeExample DeckB) \<ge> maxLeadingDuration steepFadeExample"
    "fadingFactor steepFadeExample = Fin 1000"
    by (simp_all add: steepFadeExample_eq example_defs)
  ultimately show ?thesis by (simp add: max_def min_def)
qed

text \<open>
  C4, amended. The position events of the main deck arrive with positions that do not
  decrease, from the cue on. Whenever the state is \<open>Transit\<close> after such events, the
  incoming deck's volume is 1.0 if its leading duration is below the maximal leading
  duration, and otherwise it is the fade-in progress at the last position, limited to the
  interval from 0.25 to 1, to the power of the fading factor, narrowed to single
  precision; the progress is \<open>(position - (start - leading)) / leading\<close>. The same holds
  after a single event that enters the transition from any state, with the leading that
  the handler read.
\<close>

theorem transit_incoming_volume:
  assumes "isMain (deckOf s sender)"
  shows "(transitionState s = Cued \<and> sorted ps \<longrightarrow>
          (\<exists>s'. run (map (EvDeckPosition sender) ps) s = Inr s'
             \<and> (transitionState s' = Cued \<or> transitionState s' = Transit)
             \<and> (transitionState s' = Transit \<longrightarrow>
                  ps \<noteq> []
                  \<and> volume (deckOf s' (other sender))
                      = (if getLeadingDuration (deckOf s (other sender)) < maxLeadingDuration s
                         then Fin 1
                         else narrow (pow (jlimit_x 0.25 1
                                (fdiv (last ps - (getTransitionStartPosition (deckOf s sender)
                                                   - getLeadingDuration (deckOf s (other sender))))
                                      (getLeadingDuration (deckOf s (other sender)))))
                               (fadingFactor s))))))
       \<and> (\<forall>s'. deckPosition sender position s = Inr s'
               \<and> transitionState s \<noteq> Transit \<and> transitionState s' = Transit \<longrightarrow>
             volume (deckOf s' (other sender))
               = (if getLeadingDuration (deckOf s (other sender)) < maxLeadingDuration s
                  then Fin 1
                  else narrow (pow (jlimit_x 0.25 1
                         (fdiv (position - (getTransitionStartPosition (deckOf s sender)
                                              - getLeadingDuration (deckOf s (other sender))))
                               (getLeadingDuration (deckOf s (other sender)))))
                        (fadingFactor s))))
       \<and> (\<forall>x f. getLeadingDuration (deckOf s (other sender)) \<noteq> 0 \<and> fadingFactor s = Fin f \<longrightarrow>
             narrow (pow (jlimit_x 0.25 1
                      (fdiv (x - (getTransitionStartPosition (deckOf s sender)
                                    - getLeadingDuration (deckOf s (other sender))))
                            (getLeadingDuration (deckOf s (other sender)))))
                     (fadingFactor s))
               = float32 ((max 0.25 (min 1
                    ((x - (getTransitionStartPosition (deckOf s sender)
                             - getLeadingDuration (deckOf s (other sender))))
                       / getLeadingDuration (deckOf s (other sender))))) powr f))"
proof -
  let ?n = "other sender"
  define L where "L = getLeadingDuration (deckOf s ?n)"
  define S where "S = getTransitionStartPosition (deckOf s sender)"
  define M where "M = maxLeadingDuration s"
  define F where "F = fadingFactor s"
  define V where "V = (\<lambda>p. if L < M then Fin 1
                           else narrow (pow (jlimit_x 0.25 1 (fdiv (p - (S - L)) L)) F))"
  define same where "same = (\<lambda>x. isMain (deckOf x sender) \<and> getLeadingDuration (deckOf x ?n) = L
      \<and> getTransitionStartPosition (deckOf x sender) = S \<and> maxLeadingDuration x = M
      \<and> fadingFactor x = F)"
  have same_s: "same s" using assms by (simp add: same_def L_def S_def M_def F_def)
  have single: "volume (deckOf y ?n) =
       (if L \<ge> M \<and> p > S - L then narrow (pow (jlimit_x 0.25 1 (fdiv (p - (S - L)) L)) F)
        else if transitionState x = Transit then volume (deckOf x ?n) else Fin 1)
       \<and> (transitionState x \<noteq> Transit \<longrightarrow> p > S - L)"
    if sm: "same x" and dp: "deckPosition sender p x = Inr y"
      and tr: "transitionState y = Transit" for x p y
  proof -
    from sm have m: "isMain (deckOf x sender)" by (simp add: same_def)
    define s0 where "s0 = emit (CbDeckPosition sender p) x"
    obtain fl where fl: "cueStep sender ?n p (getTransitionPreCuePosition (deckOf x sender))
        (getTransitionCuePosition (deckOf x sender)) s0 = Inr fl"
      using cueStep_total by blast
    note cs = cueStep_state [OF fl] and cf = cueStep_frame [OF fl, of ?n]
    show ?thesis
    proof (cases fl)
      case (Returned s2)
      with dp m fl have "y = s2" by (simp add: deckPosition_main s0_def)
      with cs Returned tr show ?thesis by simp
    next
      case (Continues s1)
      define s2 where "s2 = transitStep ?n p S L s1"
      from dp m fl Continues sm
      have y: "y = fadeOutStep sender p S (getTransitionEndPosition (deckOf x sender)) s2"
        by (simp add: deckPosition_main s0_def s2_def same_def)
      with tr have t2: "transitionState s2 = Transit" by (simp add: fadeOutStep_frame)
      have v: "volume (deckOf y ?n) = volume (deckOf s2 ?n)"
        using y by (simp add: fadeOutStep_frame)
      have st: "(transitionState s1 = Transit) = (transitionState x = Transit)"
        using cs Continues by (auto simp: s0_def split: if_splits)
      have keep: "volume (deckOf s1 ?n) = volume (deckOf x ?n)"
        "maxLeadingDuration s1 = M" "fadingFactor s1 = F"
        using cf Continues sm by (simp_all add: s0_def same_def)
      have enter: "transitionState s1 \<noteq> Transit \<longrightarrow> p > S - L"
        using t2 by (auto simp: s2_def transitStep_state split: if_splits)
      from transitStep_volume [of ?n p S L s1] t2 v st keep enter
      show ?thesis by (simp add: s2_def)
    qed
  qed
  have runs: "\<exists>s'. run (map (EvDeckPosition sender) ps) x = Inr s'
             \<and> (transitionState s' = Cued \<or> transitionState s' = Transit)
             \<and> (transitionState s' = Transit \<longrightarrow>
                  (transitionState x = Cued \<longrightarrow> ps \<noteq> [])
                  \<and> volume (deckOf s' ?n) = V (last (lo # ps)))"
    if "same x"
      and "transitionState x = Cued \<and> sorted ps
           \<or> transitionState x = Transit \<and> lo > S - L \<and> volume (deckOf x ?n) = V lo
              \<and> sorted (lo # ps)" for x lo
    using that
  proof (induction ps arbitrary: x lo)
    case Nil
    then show ?case by auto
  next
    case (Cons p ps)
    from Cons.prems(1) have m: "isMain (deckOf x sender)"
      and an: "getLeadingDuration (deckOf x ?n) = L"
        "getTransitionStartPosition (deckOf x sender) = S"
      by (simp_all add: same_def)
    define s0 where "s0 = emit (CbDeckPosition sender p) x"
    define y where "y = fadeOutStep sender p S (getTransitionEndPosition (deckOf x sender))
                          (transitStep ?n p S L s0)"
    have rk: "ts_rank (transitionState s0) \<ge> ts_rank Cued"
      using Cons.prems(2) by (auto simp: s0_def)
    have dp: "deckPosition sender p x = Inr y"
      using m an cueStep_skip [OF rk] by (simp add: deckPosition_main s0_def y_def)
    have sy: "same y"
      using Cons.prems(1)
      by (simp add: same_def y_def s0_def fadeOutStep_frame transitStep_frame)
    have st: "transitionState y = Cued \<or> transitionState y = Transit"
      using Cons.prems(2) by (auto simp: y_def s0_def fadeOutStep_frame transitStep_state)
    have sp: "sorted ps" "\<forall>q \<in> set ps. p \<le> q"
      using Cons.prems(2) by auto
    have cond: "transitionState y = Cued \<and> sorted ps
           \<or> transitionState y = Transit \<and> p > S - L \<and> volume (deckOf y ?n) = V p
              \<and> sorted (p # ps)"
    proof (cases "transitionState y = Transit")
      case False
      with st sp show ?thesis by simp
    next
      case True
      note sg = single [OF Cons.prems(1) dp True]
      have past: "p > S - L"
      proof (cases "transitionState x = Transit")
        case False
        with sg show ?thesis by simp
      next
        case True
        with Cons.prems(2) have "lo > S - L" "lo \<le> p" by auto
        then show ?thesis by simp
      qed
      have "volume (deckOf y ?n) = V p"
      proof (cases "L < M")
        case True
        with sg Cons.prems(2) show ?thesis by (auto simp: V_def)
      next
        case False
        with sg past show ?thesis by (simp add: V_def)
      qed
      with True past sp show ?thesis by simp
    qed
    from Cons.IH [OF sy cond] obtain s' where
      r: "run (map (EvDeckPosition sender) ps) y = Inr s'"
      "transitionState s' = Cued \<or> transitionState s' = Transit"
      "transitionState s' = Transit \<longrightarrow> volume (deckOf s' ?n) = V (last (p # ps))"
      by blast
    from r dp show ?case by auto
  qed
  have A: "transitionState s = Cued \<and> sorted ps \<longrightarrow>
          (\<exists>s'. run (map (EvDeckPosition sender) ps) s = Inr s'
             \<and> (transitionState s' = Cued \<or> transitionState s' = Transit)
             \<and> (transitionState s' = Transit \<longrightarrow> ps \<noteq> [] \<and> volume (deckOf s' ?n) = V (last ps)))"
  proof
    assume a: "transitionState s = Cued \<and> sorted ps"
    with runs [OF same_s, of 0] obtain s' where
      r: "run (map (EvDeckPosition sender) ps) s = Inr s'"
      "transitionState s' = Cued \<or> transitionState s' = Transit"
      "transitionState s' = Transit \<longrightarrow> ps \<noteq> [] \<and> volume (deckOf s' ?n) = V (last (0 # ps))"
      by blast
    then show "\<exists>s'. run (map (EvDeckPosition sender) ps) s = Inr s'
             \<and> (transitionState s' = Cued \<or> transitionState s' = Transit)
             \<and> (transitionState s' = Transit \<longrightarrow> ps \<noteq> [] \<and> volume (deckOf s' ?n) = V (last ps))"
      by (intro exI [of _ s']) auto
  qed
  have B: "\<forall>s'. deckPosition sender position s = Inr s'
               \<and> transitionState s \<noteq> Transit \<and> transitionState s' = Transit \<longrightarrow>
             volume (deckOf s' ?n) = V position"
  proof (intro allI impI)
    fix s'
    assume a: "deckPosition sender position s = Inr s'
               \<and> transitionState s \<noteq> Transit \<and> transitionState s' = Transit"
    with single [OF same_s, of position s'] show "volume (deckOf s' ?n) = V position"
      by (auto simp: V_def)
  qed
  have C: "\<forall>x f. L \<noteq> 0 \<and> F = Fin f \<longrightarrow>
             narrow (pow (jlimit_x 0.25 1 (fdiv (x - (S - L)) L)) F)
               = float32 ((max 0.25 (min 1 ((x - (S - L)) / L))) powr f)"
    using fade_in_formula by simp
  from A B C show ?thesis
    unfolding V_def L_def S_def M_def F_def by blast
qed

theorem transit_incoming_volume_witness:
  "isMain (deckOf (exampleMedley Cued 0) DeckA)
   \<and> sorted [9, 19 / 2 :: real]
   \<and> (\<exists>s'. run (map (EvDeckPosition DeckA) [9, 19 / 2]) (exampleMedley Cued 0) = Inr s'
          \<and> transitionState s' = Transit
          \<and> volume (deckOf s' DeckB) = Fin (1 / 2))
   \<and> (\<exists>s'. run (map (EvDeckPosition DeckA) [9, 19 / 2])
               ((exampleMedley Cued 0)\<lparr>maxLeadingDuration := 2\<rparr>) = Inr s'
          \<and> transitionState s' = Transit
          \<and> volume (deckOf s' DeckB) = Fin 1)"
proof -
  let ?a = "(exampleMedley Cued 0)\<lparr>maxLeadingDuration := 2\<rparr>" and ?b = "exampleMedley Cued 0"
  let ?ps = "[9, 19 / 2 :: real]"
  have ma: "isMain (deckOf ?a DeckA)" and mb: "isMain (deckOf ?b DeckA)"
    by (simp_all add: example_defs)
  have c: "transitionState ?a = Cued \<and> sorted ?ps" "transitionState ?b = Cued \<and> sorted ?ps"
    by (simp_all add: example_defs)
  have ta: "map_sum id transitionState (run (map (EvDeckPosition DeckA) ?ps) ?a) = Inr Transit"
    and tb: "map_sum id transitionState (run (map (EvDeckPosition DeckA) ?ps) ?b) = Inr Transit"
    by (simp_all add: example_defs deckPosition_def getAnotherDeck_def cueStep_def transitStep_def
        fadeOutStep_def Let_def emit_def updDeck_def setVolume_def start_def deck_start_def
        del: pow.simps narrow.simps)
  from transit_incoming_volume [OF mb, of ?ps] c(2) obtain sb where
    sb: "run (map (EvDeckPosition DeckA) ?ps) ?b = Inr sb"
    and vb: "transitionState sb = Transit \<longrightarrow>
       volume (deckOf sb (other DeckA))
         = (if getLeadingDuration (deckOf ?b (other DeckA)) < maxLeadingDuration ?b then Fin 1
            else narrow (pow (jlimit_x 0.25 1
                   (fdiv (last ?ps - (getTransitionStartPosition (deckOf ?b DeckA)
                                        - getLeadingDuration (deckOf ?b (other DeckA))))
                         (getLeadingDuration (deckOf ?b (other DeckA)))))
                  (fadingFactor ?b)))"
    by blast
  from sb tb have tsb: "transitionState sb = Transit" by simp
  have "jlimit_x 0.25 1 (fdiv (19 / 2 - (10 - 1)) 1) = Fin (1 / 2)"
    by (simp add: fdiv_def jlimit_x_def)
  with vb tsb have "volume (deckOf sb DeckB) = Fin (1 / 2)"
    by (simp add: example_defs float32_half)
  with sb tsb have 1: "\<exists>s'. run (map (EvDeckPosition DeckA) ?ps) ?b = Inr s'
          \<and> transitionState s' = Transit \<and> volume (deckOf s' DeckB) = Fin (1 / 2)"
    by blast
  from transit_incoming_volume [OF ma, of ?ps] c(1) obtain sa where
    sa: "run (map (EvDeckPosition DeckA) ?ps) ?a = Inr sa"
    and va: "transitionState sa = Transit \<longrightarrow>
       volume (deckOf sa (other DeckA))
         = (if getLeadingDuration (deckOf ?a (other DeckA)) < maxLeadingDuration ?a then Fin 1
            else narrow (pow (jlimit_x 0.25 1
                   (fdiv (last ?ps - (getTransitionStartPosition (deckOf ?a DeckA)
                                        - getLeadingDuration (deckOf ?a (other DeckA))))
                         (getLeadingDuration (deckOf ?a (other DeckA)))))
                  (fadingFactor ?a)))"
    by blast
  from sa ta have tsa: "transitionState sa = Transit" by simp
  with va have "volume (deckOf sa DeckB) = Fin 1"
    by (simp add: example_defs)
  with sa tsa have 2: "\<exists>s'. run (map (EvDeckPosition DeckA) ?ps) ?a = Inr s'
          \<and> transitionState s' = Transit \<and> volume (deckOf s' DeckB) = Fin 1"
    by blast
  from mb 1 2 show ?thesis by simp
qed

section \<open>A transition without a fade window\<close>



section \<open>The main deck\<close>

text \<open>
  C1. In every state that a new engine reaches by steps of the engine with its decks
  (deck events that come with the change of the deck, calls of the caller, changes of
  the queue and of the decks), a deck is main exactly when it is the head of the deck
  queue, the deck queue holds exactly the decks that hold a loaded track, and so exactly
  one deck is main if and only if at least one deck holds a loaded track. In such a state
  \<open>deckLoaded\<close> leaves the head of the queue main; \<open>deckUnloaded\<close> takes the sender out of
  the queue, clears its main flag and leaves the new head, if there is one, main; and the
  unloaded event of a deck that releases its track is always handled. That a deck is main
  exactly when it is the head of the deck queue also holds when the events arrive in any
  order, whatever the decks do.
\<close>

theorem main_deck_is_queue_head:
  assumes "deckRun evs (newMedley c ml mt q) = Inr s"
  shows "(\<forall>d. isMain (deckOf s d) = (getMainDeck s = Some d))
       \<and> (\<forall>d. (d \<in> set (deckQueue s)) = isTrackLoaded (deckOf s d))
       \<and> ((\<exists>!d. isMain (deckOf s d)) = (\<exists>d. isTrackLoaded (deckOf s d)))
       \<and> (\<forall>d. deckQueue (deckLoaded d s) \<noteq> []
              \<and> isMain (deckOf (deckLoaded d s) (hd (deckQueue (deckLoaded d s)))))
       \<and> (\<forall>d s'. deckUnloaded d s = Inr s' \<longrightarrow>
              \<not> isMain (deckOf s' d) \<and> deckQueue s' = removeAll d (deckQueue s)
              \<and> (deckQueue s' \<noteq> [] \<longrightarrow> isMain (deckOf s' (hd (deckQueue s')))))
       \<and> (\<forall>d. \<exists>s'. deckStep (EvDeckUnloaded d) s = Inr s'
              \<and> \<not> isMain (deckOf s' d) \<and> \<not> isTrackLoaded (deckOf s' d)
              \<and> deckQueue s' = removeAll d (deckQueue s)
              \<and> (deckQueue s' \<noteq> [] \<longrightarrow> isMain (deckOf s' (hd (deckQueue s')))))
       \<and> (\<forall>evs' t. run evs' (newMedley c ml mt q) = Inr t \<longrightarrow>
              (\<forall>d. isMain (deckOf t d) = (getMainDeck t = Some d)))"
proof -
  from deckRun_inv [OF engineInv_new queueIsLoaded_new assms]
  have inv: "engineInv s" and ql: "queueIsLoaded s" by simp_all
  from ql have q: "\<And>d. (d \<in> set (deckQueue s)) = isTrackLoaded (deckOf s d)"
    by (simp add: queueIsLoaded_def)
  have ne: "(deckQueue s \<noteq> []) = (\<exists>d. isTrackLoaded (deckOf s d))"
  proof
    assume "deckQueue s \<noteq> []"
    then have "hd (deckQueue s) \<in> set (deckQueue s)" by simp
    with q show "\<exists>d. isTrackLoaded (deckOf s d)" by blast
  next
    assume "\<exists>d. isTrackLoaded (deckOf s d)"
    with q obtain d where "d \<in> set (deckQueue s)" by blast
    then show "deckQueue s \<noteq> []" by auto
  qed
  have loaded: "deckQueue (deckLoaded d s) \<noteq> []
      \<and> isMain (deckOf (deckLoaded d s) (hd (deckQueue (deckLoaded d s))))" for d
  proof -
    have n: "deckQueue (deckLoaded d s) \<noteq> []"
      by (simp add: deckLoaded_def Let_def markAsMain_def)
    with engineInv_main [OF engineInv_deckLoaded [OF inv, of d]] show ?thesis
      by (simp add: getMainDeck_def)
  qed
  have unloaded: "\<not> isMain (deckOf s' d) \<and> deckQueue s' = removeAll d (deckQueue x)
      \<and> (deckQueue s' \<noteq> [] \<longrightarrow> isMain (deckOf s' (hd (deckQueue s'))))"
    if u: "deckUnloaded d x = Inr s'" and ix: "engineInv x" for d s' x
  proof -
    note dq = deckUnloaded_queue [OF u]
    note m = engineInv_main [OF engineInv_deckUnloaded [OF ix u]]
    have "d \<notin> set (deckQueue s')" using dq by simp
    then have "getMainDeck s' \<noteq> Some d"
      by (auto simp: getMainDeck_def split: if_splits)
    with m dq show ?thesis by (simp add: getMainDeck_def)
  qed
  have released: "\<exists>s'. deckStep (EvDeckUnloaded d) s = Inr s'
              \<and> \<not> isMain (deckOf s' d) \<and> \<not> isTrackLoaded (deckOf s' d)
              \<and> deckQueue s' = removeAll d (deckQueue s)
              \<and> (deckQueue s' \<noteq> [] \<longrightarrow> isMain (deckOf s' (hd (deckQueue s'))))" for d
  proof -
    define x where "x = updDeck d deck_unloadTrack s"
    have e: "\<not> isTrackLoaded (deckOf x d)" by (simp add: x_def deck_unloadTrack_def)
    from deckUnloaded_total [OF e] obtain s' where u: "deckUnloaded d x = Inr s'" by blast
    have "engineInv x = engineInv s"
      by (rule engineInv_cong) (simp_all add: x_def deck_unloadTrack_def)
    with inv have ix: "engineInv x" by simp
    from deckUnloaded_loaded [OF u, of d] e have "\<not> isTrackLoaded (deckOf s' d)" by simp
    moreover have "deckQueue x = deckQueue s" by (simp add: x_def)
    moreover have "deckStep (EvDeckUnloaded d) s = Inr s'"
      using u by (simp add: deckBecomesEmpty_def x_def)
    ultimately show ?thesis using unloaded [OF u ix] by (intro exI [of _ s']) auto
  qed
  have free: "\<forall>d. isMain (deckOf t d) = (getMainDeck t = Some d)"
    if "run evs' (newMedley c ml mt q) = Inr t" for evs' t
    using engineInv_main [OF run_engineInv [OF that]] by simp
  have c1: "\<forall>d. isMain (deckOf s d) = (getMainDeck s = Some d)"
    using engineInv_main [OF inv] by simp
  have c2: "\<forall>d. (d \<in> set (deckQueue s)) = isTrackLoaded (deckOf s d)"
    using q by simp
  have c3: "(\<exists>!d. isMain (deckOf s d)) = (\<exists>d. isTrackLoaded (deckOf s d))"
  proof -
    from engineInv_main [OF inv]
    have "(\<exists>!d. isMain (deckOf s d)) = (deckQueue s \<noteq> [])" by (rule conjunct2)
    then show ?thesis using ne by (rule trans)
  qed
  have c4: "\<forall>d. deckQueue (deckLoaded d s) \<noteq> []
              \<and> isMain (deckOf (deckLoaded d s) (hd (deckQueue (deckLoaded d s))))"
    using loaded by blast
  have c5: "\<forall>d s'. deckUnloaded d s = Inr s' \<longrightarrow>
              \<not> isMain (deckOf s' d) \<and> deckQueue s' = removeAll d (deckQueue s)
              \<and> (deckQueue s' \<noteq> [] \<longrightarrow> isMain (deckOf s' (hd (deckQueue s'))))"
    using unloaded [OF _ inv] by blast
  have c6: "\<forall>d. \<exists>s'. deckStep (EvDeckUnloaded d) s = Inr s'
              \<and> \<not> isMain (deckOf s' d) \<and> \<not> isTrackLoaded (deckOf s' d)
              \<and> deckQueue s' = removeAll d (deckQueue s)
              \<and> (deckQueue s' \<noteq> [] \<longrightarrow> isMain (deckOf s' (hd (deckQueue s'))))"
    using released by blast
  have c7: "\<forall>evs' t. run evs' (newMedley c ml mt q) = Inr t \<longrightarrow>
              (\<forall>d. isMain (deckOf t d) = (getMainDeck t = Some d))"
    using free by blast
  show ?thesis
    using c1 c2 c3 c4 c5 c6 c7 by (intro conjI) assumption+
qed

theorem main_deck_is_queue_head_witness:
  "\<exists>s. deckRun [EvPlay, EvDeckLoaded DeckA, EvPlay, EvDeckLoaded DeckB, EvDeckUnloaded DeckA]
          (newMedley 0 0 0 [Track 1 True, Track 2 True]) = Inr s
      \<and> deckQueue s = [DeckB]
      \<and> isMain (deckOf s DeckB) \<and> \<not> isMain (deckOf s DeckA)
      \<and> isTrackLoaded (deckOf s DeckB) \<and> \<not> isTrackLoaded (deckOf s DeckA)"
proof -
  let ?r = "deckRun [EvPlay, EvDeckLoaded DeckA, EvPlay, EvDeckLoaded DeckB, EvDeckUnloaded DeckA]
              (newMedley 0 0 0 [Track 1 True, Track 2 True])"
  have "map_sum id deckQueue ?r = Inr [DeckB]"
    by (simp add: newMedley_def newDeck_def updateFadingFactor_def deckBecomesLoaded_def
        deckBecomesEmpty_def deliverUnloaded_def deckLoaded_def deckUnloaded_def
        dequeueDeck_def continuePlaying_def play_def loadNextTrack_def getAnotherDeck_def
        getAvailableDeck_def isDeckPlaying_def setPause_def deck_ops emit_def updDeck_def
        deckOf_def Let_def)
  then obtain s where s: "?r = Inr s" "deckQueue s = [DeckB]"
    by (cases ?r) auto
  from main_deck_is_queue_head [OF s(1)]
  have m: "\<forall>d. isMain (deckOf s d) = (getMainDeck s = Some d)"
    and l: "\<forall>d. (d \<in> set (deckQueue s)) = isTrackLoaded (deckOf s d)"
    by blast+
  from m [rule_format, of DeckA] m [rule_format, of DeckB]
    l [rule_format, of DeckA] l [rule_format, of DeckB] s(2)
  have "isMain (deckOf s DeckB) \<and> \<not> isMain (deckOf s DeckA)
      \<and> isTrackLoaded (deckOf s DeckB) \<and> \<not> isTrackLoaded (deckOf s DeckA)"
    by (simp add: getMainDeck_def)
  with s show ?thesis by blast
qed

end
